theory Spec2Isabelle
  imports Main "HOL-Library.Sublist"
begin

section \<open>JavaScript values\<close>

text \<open>
  The records that \<open>import\<close> builds and \<open>export\<close> reads are plain JavaScript values.
  An object is an association list in insertion order; reading a key takes its first
  entry, and a missing key reads as \<open>undefined\<close>. Numbers are restricted to integers.
\<close>

datatype jsval =
    Undefined
  | Null
  | JBool bool
  | JNum int
  | JStr string
  | JObj "(string \<times> jsval) list"

text \<open>\<open>a ?? b\<close>: the right operand replaces \<open>null\<close> and \<open>undefined\<close> only.\<close>

fun nullish :: "jsval \<Rightarrow> bool" where
  "nullish Undefined = True"
| "nullish Null = True"
| "nullish (JBool b) = False"
| "nullish (JNum n) = False"
| "nullish (JStr s) = False"
| "nullish (JObj kvs) = False"

definition coalesce :: "jsval \<Rightarrow> jsval \<Rightarrow> jsval" where
  "coalesce a b = (if nullish a then b else a)"

text \<open>\<open>obj[k]\<close> and \<open>obj[k] = v\<close> on an object's entries.\<close>

definition obj_get :: "(string \<times> jsval) list \<Rightarrow> string \<Rightarrow> jsval" where
  "obj_get kvs k = (case map_of kvs k of None \<Rightarrow> Undefined | Some v \<Rightarrow> v)"

fun obj_set :: "string \<Rightarrow> 'a \<Rightarrow> (string \<times> 'a) list \<Rightarrow> (string \<times> 'a) list" where
  "obj_set k v [] = [(k, v)]"
| "obj_set k v ((k', v') # kvs) =
     (if k' = k then (k, v) # kvs else (k', v') # obj_set k v kvs)"

text \<open>\<open>Object.fromEntries\<close>: a later entry with the same key replaces the earlier value.\<close>

definition from_entries :: "(string \<times> 'a) list \<Rightarrow> (string \<times> 'a) list" where
  "from_entries es = foldl (\<lambda>acc (k, v). obj_set k v acc) [] es"

section \<open>Key-paths\<close>

text \<open>\<open>kp.split('.')\<close>: never empty; the empty string splits into one empty segment.\<close>

fun split_on :: "char \<Rightarrow> string \<Rightarrow> string list" where
  "split_on d [] = [[]]"
| "split_on d (c # cs) =
     (if c = d then [] # split_on d cs
      else (case split_on d cs of
              [] \<Rightarrow> [[c]]
            | w # ws \<Rightarrow> (c # w) # ws))"

text \<open>
  Modelled from the spec: the path utilities \<open>dlv\<close> and \<open>dset\<close> are external packages.
  \<open>get(object, dotPath)\<close> walks the segments and short-circuits to "no value" as soon as
  a segment is missing or the value reached is not a container; it never fails.
  \<open>set(object, dotPath, value)\<close> walks the segments, reuses the container found at a
  segment, creates an empty container where none is found (also in place of a value that
  is not a container), and stores the value at the last segment. Containers are plain
  objects with own properties only.
\<close>

fun get_path :: "jsval \<Rightarrow> string list \<Rightarrow> jsval" where
  "get_path v [] = v"
| "get_path v (k # ks) =
     (case v of JObj kvs \<Rightarrow> get_path (obj_get kvs k) ks | _ \<Rightarrow> Undefined)"

fun set_path :: "(string \<times> jsval) list \<Rightarrow> string list \<Rightarrow> jsval \<Rightarrow> (string \<times> jsval) list" where
  "set_path kvs [] v = kvs"
| "set_path kvs [k] v = obj_set k v kvs"
| "set_path kvs (k # k' # ks) v =
     obj_set k
       (JObj (set_path (case obj_get kvs k of JObj sub \<Rightarrow> sub | _ \<Rightarrow> []) (k' # ks) v))
       kvs"

definition dlv :: "jsval \<Rightarrow> string \<Rightarrow> jsval" where
  "dlv obj kp = get_path obj (split_on (CHR ''.'') kp)"

text \<open>
  Modelled from the spec: the read as \<open>export\<close> runs it, with its effects explicit. Reading
  a property of \<open>null\<close> or \<open>undefined\<close> throws in JavaScript, reading a property of any other
  value does not. The walk of \<open>get\<close> reads one property per segment and short-circuits to
  "no value" when the value reached is absent. A read writes nothing: it returns its
  outcome together with the record as it leaves it.
\<close>

definition js_get :: "jsval \<Rightarrow> string \<Rightarrow> string + jsval" where
  "js_get v k =
     (case v of
        Undefined \<Rightarrow> Inl ''TypeError''
      | Null \<Rightarrow> Inl ''TypeError''
      | JObj kvs \<Rightarrow> Inr (obj_get kvs k)
      | _ \<Rightarrow> Inr Undefined)"

fun read_path :: "jsval \<Rightarrow> string list \<Rightarrow> string + jsval" where
  "read_path v [] = Inr v"
| "read_path v (k # ks) =
     (if nullish v then Inr Undefined
      else (case js_get v k of Inl x \<Rightarrow> Inl x | Inr w \<Rightarrow> read_path w ks))"

definition dlv_run :: "jsval \<Rightarrow> string \<Rightarrow> (string + jsval) \<times> jsval" where
  "dlv_run obj kp = (read_path obj (split_on (CHR ''.'') kp), obj)"

definition dset :: "(string \<times> jsval) list \<Rightarrow> string \<Rightarrow> jsval \<Rightarrow> (string \<times> jsval) list" where
  "dset obj kp v = set_path obj (split_on (CHR ''.'') kp) v"


text \<open>Two key-paths are independent when neither is a prefix of the other.\<close>

definition independent :: "string \<Rightarrow> string \<Rightarrow> bool" where
  "independent kp kp' =
     (\<not> prefix (split_on (CHR ''.'') kp) (split_on (CHR ''.'') kp') \<and>
      \<not> prefix (split_on (CHR ''.'') kp') (split_on (CHR ''.'') kp))"

fun independent_paths :: "string list \<Rightarrow> bool" where
  "independent_paths [] = True"
| "independent_paths (kp # kps) = ((\<forall>kp' \<in> set kps. independent kp' kp) \<and> independent_paths kps)"

section \<open>Codecs and the schema\<close>

text \<open>
  Modelled from the spec: a codec (a Zod type) is a pair of functions. \<open>decode\<close> takes the
  raw cell (a string, or \<open>undefined\<close> for an absent cell) to a typed value or fails with a
  message; \<open>encode\<close> takes a typed value back to a cell value or throws.
\<close>

record codec =
  decode :: "jsval \<Rightarrow> string + jsval"
  encode :: "jsval \<Rightarrow> string + jsval"

text \<open>\<open>MetaEntry = readonly [string, KP, ZT]\<close>: header, key-path, codec.\<close>

type_synonym meta_entry = "string \<times> string \<times> codec"

section \<open>The tokenizer and the writer\<close>

datatype papa_error = PapaError (err_code: string) (err_row: nat)

record papa_meta =
  meta_delimiter :: char
  meta_fields :: "string list"

record papa_result =
  data :: "(string \<times> jsval) list list"
  errors :: "papa_error list"
  meta :: papa_meta

record parse_config =
  header :: bool
  skipEmptyLines :: bool
  transformHeader :: "string \<Rightarrow> string"
  transform :: "string \<Rightarrow> jsval"
  parse_delimiter :: "char option"

text \<open>\<open>Partial<Papa.ParseConfig>\<close>: every option may be left out.\<close>

record parse_opts =
  opt_header :: "bool option"
  opt_skipEmptyLines :: "bool option"
  opt_transformHeader :: "(string \<Rightarrow> string) option"
  opt_transform :: "(string \<Rightarrow> jsval) option"
  opt_delimiter :: "char option"

record unparse_opts =
  unparse_delimiter :: "char option"
  unparse_newline :: "string option"

record csv_serializer =
  schema :: "meta_entry list"
  opts_parse :: "parse_opts option"
  opts_unparse :: "unparse_opts option"

text \<open>
  \<open>String.prototype.trim\<close>. A character of a string stands for a code unit below 256; the
  white space and line terminators of JavaScript in that range are the tab, line feed,
  vertical tab, form feed, carriage return, space and no-break space.
\<close>

definition is_space :: "char \<Rightarrow> bool" where
  "is_space c =
     (c = CHR '' '' \<or> c = CHR 0x09 \<or> c = CHR 0x0A \<or> c = CHR 0x0B \<or> c = CHR 0x0C \<or> c = CHR 0x0D \<or>
      c = CHR 0xA0)"

definition trim :: "string \<Rightarrow> string" where
  "trim s = rev (dropWhile is_space (rev (dropWhile is_space s)))"

text \<open>\<open>(v) => v.trim() || undefined\<close>: the empty string is falsy.\<close>

definition cell_transform :: "string \<Rightarrow> jsval" where
  "cell_transform v = (if trim v = [] then Undefined else JStr (trim v))"

text \<open>
  The configuration \<open>import\<close> hands to the tokenizer: its four settings, each replaced by
  the caller's option of the same name when \<open>opts.parse\<close> gives one.
\<close>

definition import_config :: "parse_opts option \<Rightarrow> parse_config" where
  "import_config po =
     (case po of
        None \<Rightarrow>
          \<lparr>header = True, skipEmptyLines = True, transformHeader = trim,
           transform = cell_transform, parse_delimiter = None\<rparr>
      | Some p \<Rightarrow>
          \<lparr>header = (case opt_header p of None \<Rightarrow> True | Some b \<Rightarrow> b),
           skipEmptyLines = (case opt_skipEmptyLines p of None \<Rightarrow> True | Some b \<Rightarrow> b),
           transformHeader = (case opt_transformHeader p of None \<Rightarrow> trim | Some f \<Rightarrow> f),
           transform = (case opt_transform p of None \<Rightarrow> cell_transform | Some f \<Rightarrow> f),
           parse_delimiter = opt_delimiter p\<rparr>)"

text \<open>The caller's \<open>opts.parse\<close> replaces none of the four settings of \<open>import\<close>.\<close>

definition keeps_hooks :: "parse_opts option \<Rightarrow> bool" where
  "keeps_hooks po =
     (case po of
        None \<Rightarrow> True
      | Some p \<Rightarrow> opt_header p = None \<and> opt_skipEmptyLines p = None \<and>
                 opt_transformHeader p = None \<and> opt_transform p = None)"

section \<open>Validation\<close>

datatype issue = Issue (issue_row: nat) (issue_key: string) (issue_message: string)

datatype error =
    AggregateError "papa_error list" papa_meta
  | ZodError "issue list"
  | EncodeThrown string

text \<open>
  Modelled from the spec: the validation engine (\<open>z.object(shape).array().decode(rows)\<close>)
  is external. It decodes every cell of every row with the codec its header is paired
  with, in one pass, and either returns all decoded rows or fails with the issues of all
  failing cells, each located by row index and header.
\<close>

definition decode_cell :: "nat \<Rightarrow> (string \<times> jsval) list \<Rightarrow> string \<times> codec \<Rightarrow> issue + string \<times> jsval" where
  "decode_cell i row hc =
     (case decode (snd hc) (obj_get row (fst hc)) of
        Inl msg \<Rightarrow> Inl (Issue i (fst hc) msg)
      | Inr v \<Rightarrow> Inr (fst hc, v))"

fun lefts :: "('a + 'b) list \<Rightarrow> 'a list" where
  "lefts [] = []"
| "lefts (Inl a # xs) = a # lefts xs"
| "lefts (Inr b # xs) = lefts xs"

fun rights :: "('a + 'b) list \<Rightarrow> 'b list" where
  "rights [] = []"
| "rights (Inl a # xs) = rights xs"
| "rights (Inr b # xs) = b # rights xs"

definition decode_rows :: "(string \<times> codec) list \<Rightarrow> (string \<times> jsval) list list \<Rightarrow> (issue + string \<times> jsval) list list" where
  "decode_rows shape rows = map (\<lambda>(i, row). map (decode_cell i row) shape) (enumerate 0 rows)"

definition zod_decode :: "(string \<times> codec) list \<Rightarrow> (string \<times> jsval) list list \<Rightarrow> issue list + (string \<times> jsval) list list" where
  "zod_decode shape rows =
     (let rs = decode_rows shape rows; issues = concat (map lefts rs)
      in if issues = [] then Inr (map rights rs) else Inl issues)"

text \<open>A cell fails when the codec its header is paired with rejects it.\<close>

definition cell_fails :: "(string \<times> codec) list \<Rightarrow> (string \<times> jsval) list \<Rightarrow> string \<Rightarrow> bool" where
  "cell_fails shape row h =
     (case map_of shape h of None \<Rightarrow> False | Some zt \<Rightarrow> isl (decode zt (obj_get row h)))"

section \<open>CsvSerializer\<close>

text \<open>The body of \<open>data.map\<close> in \<open>import\<close>: one \<open>dset\<close> per schema entry, in schema order.\<close>

fun write_entries :: "(string \<times> jsval) list \<Rightarrow> meta_entry list \<Rightarrow> (string \<times> jsval) list \<Rightarrow> (string \<times> jsval) list" where
  "write_entries row [] obj = obj"
| "write_entries row ((hdr, kp, zt) # rest) obj =
     write_entries row rest (dset obj kp (obj_get row hdr))"

definition row_to_obj :: "meta_entry list \<Rightarrow> (string \<times> jsval) list \<Rightarrow> (string \<times> jsval) list" where
  "row_to_obj sch row = write_entries row sch []"

definition validation_shape :: "meta_entry list \<Rightarrow> (string \<times> codec) list" where
  "validation_shape sch = from_entries (map (\<lambda>(h, kp, zt). (h, zt)) sch)"

text \<open>\<open>import\<close>, with the tokenizer \<open>Papa.parse\<close> as a parameter.\<close>

definition import ::
  "(parse_config \<Rightarrow> string \<Rightarrow> papa_result) \<Rightarrow> csv_serializer \<Rightarrow> string \<Rightarrow> error + jsval list" where
  "import parse sz csvStr =
     (let papaRes = parse (import_config (opts_parse sz)) csvStr
      in if length (errors papaRes) > 0
         then Inl (AggregateError (errors papaRes) (meta papaRes))
         else (case zod_decode (validation_shape (schema sz)) (data papaRes) of
                 Inl issues \<Rightarrow> Inl (ZodError issues)
               | Inr rows \<Rightarrow> Inr (map (\<lambda>row. JObj (row_to_obj (schema sz) row)) rows)))"

text \<open>One cell of \<open>export\<close>: \<open>zt.encode(dlv(e, kp)) ?? ''\<close>.\<close>

definition export_cell :: "jsval \<Rightarrow> meta_entry \<Rightarrow> string + jsval" where
  "export_cell e ent =
     (case ent of (h, kp, zt) \<Rightarrow>
        (case fst (dlv_run e kp) of
           Inl x \<Rightarrow> Inl x
         | Inr v \<Rightarrow>
             (case encode zt v of
                Inl x \<Rightarrow> Inl x
              | Inr out \<Rightarrow> Inr (coalesce out (JStr [])))))"

text \<open>A \<open>map\<close> whose callback may throw: the first exception ends it.\<close>

fun map_throwing :: "('a \<Rightarrow> 'e + 'b) \<Rightarrow> 'a list \<Rightarrow> 'e + 'b list" where
  "map_throwing f [] = Inr []"
| "map_throwing f (x # xs) =
     (case f x of
        Inl e \<Rightarrow> Inl e
      | Inr y \<Rightarrow> (case map_throwing f xs of Inl e \<Rightarrow> Inl e | Inr ys \<Rightarrow> Inr (y # ys)))"

definition hdrRow :: "meta_entry list \<Rightarrow> jsval list" where
  "hdrRow sch = map (\<lambda>(h, kp, zt). JStr h) sch"

text \<open>\<open>export\<close>, with the writer \<open>Papa.unparse\<close> as a parameter.\<close>

definition export ::
  "(unparse_opts option \<Rightarrow> jsval list list \<Rightarrow> string) \<Rightarrow> csv_serializer \<Rightarrow> jsval list \<Rightarrow> error + string" where
  "export unparse sz entries =
     (case map_throwing (\<lambda>e. map_throwing (export_cell e) (schema sz)) entries of
        Inl x \<Rightarrow> Inl (EncodeThrown x)
      | Inr rows \<Rightarrow> Inr (unparse (opts_unparse sz) (hdrRow (schema sz) # rows)))"

section \<open>The external tokenizer and writer\<close>

text \<open>\<open>String(n)\<close> and \<open>Number(s)\<close> on decimal digits.\<close>

definition digit_char :: "nat \<Rightarrow> char" where
  "digit_char n = ''0123456789'' ! (n mod 10)"

function show_nat :: "nat \<Rightarrow> string" where
  "show_nat n = (if n < 10 then [digit_char n] else show_nat (n div 10) @ [digit_char n])"
  by pat_completeness auto
termination
  by (relation "measure id") auto

definition is_digit :: "char \<Rightarrow> bool" where
  "is_digit c = (c \<in> set ''0123456789'')"

definition digit_val :: "char \<Rightarrow> nat" where
  "digit_val c = length (takeWhile (\<lambda>x. x \<noteq> c) ''0123456789'')"

definition read_nat :: "string \<Rightarrow> nat" where
  "read_nat s = foldl (\<lambda>acc c. 10 * acc + digit_val c) 0 s"

text \<open>
  Modelled from the spec: the CSV tokenizer (\<open>Papa.parse\<close>) is external. It works in two
  stages. A lexer splits the text into lines of raw cells, honouring the delimiter, the
  line ends and the quoting. The second stage, given here, skips blank lines when asked (a
  blank line is a line of one empty cell), takes the first line as the header row in
  header-row mode, passes header names and cells through the configured hooks, builds one
  row object per data line, and reports a data line whose field count differs from the
  header's as a structural error. Without header-row mode the rows are arrays, given here
  as objects keyed by position.
\<close>

record lexed =
  lex_rows :: "string list list"
  lex_errors :: "papa_error list"
  lex_delimiter :: char

definition field_count_errors :: "nat \<Rightarrow> nat \<times> string list \<Rightarrow> papa_error list" where
  "field_count_errors n ir =
     (if length (snd ir) < n then [PapaError ''TooFewFields'' (fst ir)]
      else if length (snd ir) > n then [PapaError ''TooManyFields'' (fst ir)]
      else [])"

definition tokenize :: "(parse_config \<Rightarrow> string \<Rightarrow> lexed) \<Rightarrow> parse_config \<Rightarrow> string \<Rightarrow> papa_result" where
  "tokenize lexer cfg s =
     (let lx = lexer cfg s;
          rs = (if skipEmptyLines cfg then filter (\<lambda>r. r \<noteq> [[]]) (lex_rows lx) else lex_rows lx)
      in if header cfg
         then (case rs of
                 [] \<Rightarrow> \<lparr>data = [], errors = lex_errors lx,
                        meta = \<lparr>meta_delimiter = lex_delimiter lx, meta_fields = []\<rparr>\<rparr>
               | h # ds \<Rightarrow>
                   (let hs = map (transformHeader cfg) h
                    in \<lparr>data = map (\<lambda>r. from_entries (zip hs (map (transform cfg) r))) ds,
                        errors = lex_errors lx @
                                 concat (map (field_count_errors (length hs)) (enumerate 0 ds)),
                        meta = \<lparr>meta_delimiter = lex_delimiter lx, meta_fields = hs\<rparr>\<rparr>))
         else \<lparr>data = map (\<lambda>r. from_entries (zip (map show_nat [0..<length r])
                                                    (map (transform cfg) r))) rs,
               errors = lex_errors lx,
               meta = \<lparr>meta_delimiter = lex_delimiter lx, meta_fields = []\<rparr>\<rparr>)"

text \<open>
  Modelled from the spec: a lexer for RFC-4180-ish text. Cells are separated by the
  delimiter (a comma unless configured), lines end at LF or CRLF. A cell that starts with
  a double quote runs to its closing quote, may hold delimiters and line ends, and holds a
  double quote written twice. A quote that is never closed is a structural error.
\<close>

datatype lex_state = Plain | Quoted | Closed

fun lex_run ::
  "char \<Rightarrow> lex_state \<Rightarrow> string \<Rightarrow> string list \<Rightarrow> string list list \<Rightarrow> string \<Rightarrow> string list list \<times> bool" where
  "lex_run d st fld row rows [] = (rev (rev (rev fld # row) # rows), st = Quoted)"
| "lex_run d st fld row rows (c # cs) =
     (if st = Quoted then
        (if c = CHR 0x22 then lex_run d Closed fld row rows cs
         else lex_run d Quoted (c # fld) row rows cs)
      else if c = CHR 0x22 \<and> st = Closed then lex_run d Quoted (c # fld) row rows cs
      else if c = CHR 0x22 \<and> fld = [] then lex_run d Quoted fld row rows cs
      else if c = d then lex_run d Plain [] (rev fld # row) rows cs
      else if c = CHR 0x0A then lex_run d Plain [] [] (rev (rev fld # row) # rows) cs
      else if c = CHR 0x0D \<and> cs \<noteq> [] \<and> hd cs = CHR 0x0A then lex_run d st fld row rows cs
      else lex_run d Plain (c # fld) row rows cs)"

definition papa_lex :: "parse_config \<Rightarrow> string \<Rightarrow> lexed" where
  "papa_lex cfg s =
     (let d = (case parse_delimiter cfg of None \<Rightarrow> CHR '','' | Some c \<Rightarrow> c);
          r = lex_run d Plain [] [] [] s
      in \<lparr>lex_rows = fst r,
          lex_errors = (if snd r then [PapaError ''MissingQuotes'' (length (fst r) - 1)] else []),
          lex_delimiter = d\<rparr>)"

definition papa_parse :: "parse_config \<Rightarrow> string \<Rightarrow> papa_result" where
  "papa_parse = tokenize papa_lex"

text \<open>
  Modelled from the spec: the CSV writer (\<open>Papa.unparse\<close>) is external. Each row is one
  line, its cells joined by the delimiter (a comma unless configured), the lines joined by
  the line terminator (CRLF unless configured); a nullish cell is written empty. A cell
  that holds the delimiter, a double quote, a carriage return or a line feed, or that
  starts or ends with a space, is written between double quotes, each double quote in it
  written twice.
\<close>

fun cell_text :: "jsval \<Rightarrow> string" where
  "cell_text Undefined = []"
| "cell_text Null = []"
| "cell_text (JBool b) = (if b then ''true'' else ''false'')"
| "cell_text (JNum n) = (if n < 0 then CHR ''-'' # show_nat (nat (- n)) else show_nat (nat n))"
| "cell_text (JStr s) = s"
| "cell_text (JObj kvs) = ''[object Object]''"

fun join_with :: "'a list \<Rightarrow> 'a list list \<Rightarrow> 'a list" where
  "join_with sep [] = []"
| "join_with sep [x] = x"
| "join_with sep (x # y # ys) = x @ sep @ join_with sep (y # ys)"

definition unparse_delim :: "unparse_opts option \<Rightarrow> char" where
  "unparse_delim uo =
     (case uo of None \<Rightarrow> CHR '','' | Some u \<Rightarrow>
        (case unparse_delimiter u of None \<Rightarrow> CHR '','' | Some c \<Rightarrow> c))"

definition needs_quotes :: "char \<Rightarrow> string \<Rightarrow> bool" where
  "needs_quotes d s =
     (d \<in> set s \<or> CHR 0x22 \<in> set s \<or> CHR 0x0D \<in> set s \<or> CHR 0x0A \<in> set s \<or>
      (s \<noteq> [] \<and> (hd s = CHR '' '' \<or> last s = CHR '' '')))"

definition quote_cell :: "char \<Rightarrow> string \<Rightarrow> string" where
  "quote_cell d s =
     (if needs_quotes d s
      then CHR 0x22 # concat (map (\<lambda>c. if c = CHR 0x22 then [CHR 0x22, CHR 0x22] else [c]) s) @ [CHR 0x22]
      else s)"

definition unparse_line :: "unparse_opts option \<Rightarrow> jsval list \<Rightarrow> string" where
  "unparse_line uo r =
     join_with [unparse_delim uo] (map (\<lambda>c. quote_cell (unparse_delim uo) (cell_text c)) r)"

definition unparse_nl :: "unparse_opts option \<Rightarrow> string" where
  "unparse_nl uo =
     (case uo of None \<Rightarrow> [CHR 0x0D, CHR 0x0A] | Some u \<Rightarrow>
        (case unparse_newline u of None \<Rightarrow> [CHR 0x0D, CHR 0x0A] | Some nl \<Rightarrow> nl))"

definition papa_unparse :: "unparse_opts option \<Rightarrow> jsval list list \<Rightarrow> string" where
  "papa_unparse uo rows = join_with (unparse_nl uo) (map (unparse_line uo) rows)"

text \<open>\<open>text.split(nl)[0]\<close>: the text before the first occurrence of the separator.\<close>

fun first_line :: "string \<Rightarrow> string \<Rightarrow> string" where
  "first_line nl [] = []"
| "first_line nl (c # cs) =
     (if nl = [] then [c]
      else if prefix nl (c # cs) then []
      else c # first_line nl cs)"

text \<open>
  Modelled from the spec: the codecs of the test schema, as far as the runs below need
  them. \<open>z.string()\<close> and \<open>z.string().min(1)\<close> accept strings (of length at least one) in
  both directions; \<open>.optional()\<close> lets "no value" through in both directions; the score
  codec is
  \<open>z.codec(z.string().regex(/^\d+$/), z.number().int(), {decode: Number, encode: String})\<close>;
  \<open>z.boolean()\<close> accepts booleans in both directions.
\<close>

definition check_string :: "nat \<Rightarrow> jsval \<Rightarrow> string + jsval" where
  "check_string n v =
     (case v of
        JStr s \<Rightarrow> if n \<le> length s then Inr (JStr s) else Inl ''too_small''
      | _ \<Rightarrow> Inl ''invalid_type'')"

definition z_string :: codec where
  "z_string = \<lparr>decode = check_string 0, encode = check_string 0\<rparr>"


definition check_boolean :: "jsval \<Rightarrow> string + jsval" where
  "check_boolean v = (case v of JBool b \<Rightarrow> Inr (JBool b) | _ \<Rightarrow> Inl ''invalid_type'')"

definition z_boolean :: codec where
  "z_boolean = \<lparr>decode = check_boolean, encode = check_boolean\<rparr>"

definition z_optional :: "codec \<Rightarrow> codec" where
  "z_optional zt =
     \<lparr>decode = (\<lambda>v. if v = Undefined then Inr Undefined else decode zt v),
      encode = (\<lambda>v. if v = Undefined then Inr Undefined else encode zt v)\<rparr>"

definition score_decode :: "jsval \<Rightarrow> string + jsval" where
  "score_decode v =
     (case v of
        JStr s \<Rightarrow>
          if s \<noteq> [] \<and> list_all is_digit s then Inr (JNum (int (read_nat s)))
          else Inl ''invalid_format''
      | _ \<Rightarrow> Inl ''invalid_type'')"

definition score_encode :: "jsval \<Rightarrow> string + jsval" where
  "score_encode v =
     (case v of
        JNum n \<Rightarrow> if 0 \<le> n then Inr (JStr (show_nat (nat n))) else Inl ''invalid_format''
      | _ \<Rightarrow> Inl ''invalid_type'')"

definition z_score :: codec where
  "z_score = \<lparr>decode = score_decode, encode = score_encode\<rparr>"

text \<open>The serializer of the spec's scenario: an identifier and an optional nested score.\<close>

definition scenario :: csv_serializer where
  "scenario =
     \<lparr>schema = [(''ID'', ''id'', z_string),
                (''Score'', ''meta.scores.primary'', z_optional z_score)],
      opts_parse = None, opts_unparse = None\<rparr>"

text \<open>
  Serializers for the runs on key-paths: two columns under one container, a column nested
  under another column's leaf, two columns on one key-path, and those two followed by a
  column nested under them.
\<close>

definition path_sharing :: csv_serializer where
  "path_sharing =
     \<lparr>schema = [(''Created At'', ''meta.createdAt'', z_string),
                (''Score'', ''meta.scores.primary'', z_optional z_score)],
      opts_parse = None, opts_unparse = None\<rparr>"

definition leaf_then_child :: csv_serializer where
  "leaf_then_child =
     \<lparr>schema = [(''A'', ''a.b'', z_string), (''B'', ''a.b.c'', z_string)],
      opts_parse = None, opts_unparse = None\<rparr>"

definition same_path :: csv_serializer where
  "same_path =
     \<lparr>schema = [(''A'', ''x'', z_string), (''B'', ''x'', z_string)],
      opts_parse = None, opts_unparse = None\<rparr>"

definition same_path_then_child :: csv_serializer where
  "same_path_then_child =
     \<lparr>schema = [(''A'', ''x'', z_string), (''B'', ''x'', z_string), (''C'', ''x.y'', z_string)],
      opts_parse = None, opts_unparse = None\<rparr>"


definition falsy_leaves :: csv_serializer where
  "falsy_leaves =
     \<lparr>schema = [(''Is Admin'', ''isAdmin'', z_boolean), (''Score'', ''meta.scores.primary'', z_score)],
      opts_parse = None, opts_unparse = None\<rparr>"


definition optional_then_child :: csv_serializer where
  "optional_then_child =
     \<lparr>schema = [(''A'', ''x'', z_optional z_string), (''B'', ''x.y'', z_string)],
      opts_parse = None, opts_unparse = None\<rparr>"

text \<open>A serializer with two plain string columns, for the run on the round trip.\<close>

definition two_strings :: csv_serializer where
  "two_strings =
     \<lparr>schema = [(''ID'', ''id'', z_string), (''Name'', ''name'', z_string)],
      opts_parse = None, opts_unparse = None\<rparr>"

text \<open>The two records of the spec's scenario.\<close>

definition scenario_records :: "jsval list" where
  "scenario_records =
     [JObj [(''id'', JStr ''101''), (''meta'', JObj [(''scores'', JObj [(''primary'', JNum 95)])])],
      JObj [(''id'', JStr ''102''), (''meta'', JObj [(''scores'', JObj [(''primary'', Undefined)])])]]"

text \<open>
  A codec that writes \<open>true\<close> as \<open>yes\<close> and \<open>false\<close> as the empty string:
  \<open>z.codec(z.string(), z.boolean(), {decode: s => s === 'yes', encode: b => b ? 'yes' : ''})\<close>.
\<close>

definition yes_blank :: codec where
  "yes_blank =
     \<lparr>decode = (\<lambda>v. case v of JStr s \<Rightarrow> Inr (JBool (s = ''yes'')) | _ \<Rightarrow> Inl ''invalid_type''),
      encode = (\<lambda>v. case v of JBool b \<Rightarrow> Inr (JStr (if b then ''yes'' else [])) | _ \<Rightarrow> Inl ''invalid_type'')\<rparr>"

text \<open>
  Serializers for further runs: a header that holds the delimiter, a caller who replaces
  the cell hook by the identity (\<open>transform: v => v\<close>), a header with a leading space,
  a single optional column, and two optional columns of which one is nested under the
  other.
\<close>

definition quoted_header :: csv_serializer where
  "quoted_header =
     \<lparr>schema = [(''a,b'', ''x'', z_string), (''c'', ''y'', z_string)],
      opts_parse = None, opts_unparse = None\<rparr>"

definition keep_raw :: csv_serializer where
  "keep_raw =
     \<lparr>schema = [(''ID'', ''id'', z_string), (''Name'', ''name'', z_optional z_string)],
      opts_parse = Some \<lparr>opt_header = None, opt_skipEmptyLines = None, opt_transformHeader = None,
                         opt_transform = Some JStr, opt_delimiter = None\<rparr>,
      opts_unparse = None\<rparr>"

definition spaced_header :: csv_serializer where
  "spaced_header =
     \<lparr>schema = [('' ID'', ''id'', z_string)], opts_parse = None, opts_unparse = None\<rparr>"

definition single_optional :: csv_serializer where
  "single_optional =
     \<lparr>schema = [(''Note'', ''note'', z_optional z_string)], opts_parse = None, opts_unparse = None\<rparr>"

definition optional_overlap :: csv_serializer where
  "optional_overlap =
     \<lparr>schema = [(''A'', ''x'', z_optional z_string), (''B'', ''x.y'', z_optional z_string)],
      opts_parse = None, opts_unparse = None\<rparr>"

section \<open>Reading and writing along a path\<close>

lemma obj_get_obj_set: "obj_get (obj_set k v kvs) k' = (if k' = k then v else obj_get kvs k')"
  by (induction kvs) (auto simp: obj_get_def)

lemma split_on_not_Nil: "split_on d s \<noteq> []"
  by (induction s) (auto split: list.splits)

lemma get_path_Undefined: "get_path Undefined ks = Undefined"
  by (cases ks) auto

lemma get_path_Nil_obj: "ks \<noteq> [] \<Longrightarrow> get_path (JObj []) ks = Undefined"
  by (cases ks) (auto simp: obj_get_def get_path_Undefined)

lemma get_path_append: "get_path v (p @ q) = get_path (get_path v p) q"
  by (induction p arbitrary: v) (auto simp: get_path_Undefined split: jsval.splits)

lemma get_set_same: "p \<noteq> [] \<Longrightarrow> get_path (JObj (set_path kvs p v)) p = v"
  by (induction kvs p v rule: set_path.induct) (auto simp: obj_get_obj_set)

lemma sub_container:
  "qs \<noteq> [] \<Longrightarrow> get_path (JObj (case x of JObj sub \<Rightarrow> sub | _ \<Rightarrow> [])) qs = get_path x qs"
  by (cases x; cases qs) (auto simp: obj_get_def get_path_Undefined)

lemma get_set_other:
  "\<not> prefix p q \<Longrightarrow> \<not> prefix q p \<Longrightarrow>
   get_path (JObj (set_path kvs p v)) q = get_path (JObj kvs) q"
proof (induction kvs p v arbitrary: q rule: set_path.induct)
  case (1 kvs v)
  then show ?case by simp
next
  case (2 kvs k v)
  then obtain k' qs where q: "q = k' # qs" by (cases q) auto
  with 2 have "k' \<noteq> k" by auto
  then show ?case by (simp add: q obj_get_obj_set)
next
  case (3 kvs k k' ks v)
  then obtain j qs where q: "q = j # qs" by (cases q) auto
  show ?case
  proof (cases "j = k")
    case False
    then show ?thesis by (simp add: q obj_get_obj_set)
  next
    case True
    with 3 q have np: "\<not> prefix (k' # ks) qs" "\<not> prefix qs (k' # ks)" by auto
    then have "qs \<noteq> []" by auto
    with True np show ?thesis
      using "3.IH" [of qs] by (simp add: q obj_get_obj_set sub_container)
  qed
qed

lemma set_keeps_container:
  "get_path (JObj kvs) p = JObj c \<Longrightarrow> \<not> prefix q p \<Longrightarrow> q \<noteq> [] \<Longrightarrow>
   \<exists>c'. get_path (JObj (set_path kvs q v)) p = JObj c'"
proof (induction kvs q v arbitrary: p c rule: set_path.induct)
  case (1 kvs v)
  then show ?case by simp
next
  case (2 kvs k v)
  then show ?case by (cases p) (auto simp: obj_get_obj_set)
next
  case (3 kvs k k' ks v)
  show ?case
  proof (cases p)
    case Nil
    then show ?thesis by simp
  next
    case (Cons j ps)
    show ?thesis
    proof (cases "j = k")
      case False
      with 3 Cons show ?thesis by (simp add: obj_get_obj_set)
    next
      case True
      with 3 Cons have g: "get_path (obj_get kvs k) ps = JObj c" and np: "\<not> prefix (k' # ks) ps" by auto
      show ?thesis
      proof (cases "obj_get kvs k")
        case (JObj sub)
        with g np show ?thesis
          using "3.IH" [of ps c] by (simp add: Cons True obj_get_obj_set)
      qed (use g in \<open>cases ps; simp\<close>)+
    qed
  qed
qed


lemma read_path_eq: "read_path v ks = Inr (get_path v ks)"
  by (induction ks arbitrary: v) (auto simp: js_get_def get_path_Undefined split: jsval.splits)

lemma dlv_run_eq: "dlv_run e kp = (Inr (dlv e kp), e)"
  by (simp add: dlv_run_def dlv_def read_path_eq)

lemma export_cell_eq:
  "export_cell e (h, kp, zt) =
     (case encode zt (dlv e kp) of Inl x \<Rightarrow> Inl x | Inr v \<Rightarrow> Inr (coalesce v (JStr [])))"
  by (simp add: export_cell_def dlv_run_eq)

section \<open>The object built from a row\<close>

lemma write_entries_append:
  "write_entries row (a @ b) obj = write_entries row b (write_entries row a obj)"
  by (induction a arbitrary: obj) auto

lemma dlv_dset_same: "dlv (JObj (dset obj kp v)) kp = v"
  by (simp add: dlv_def dset_def get_set_same split_on_not_Nil)

lemma dlv_dset_other: "independent kp' kp \<Longrightarrow> dlv (JObj (dset obj kp' v)) kp = dlv (JObj obj) kp"
  by (simp add: dlv_def dset_def independent_def get_set_other)

lemma write_entries_frame:
  "\<forall>ent \<in> set post. independent (fst (snd ent)) kp \<Longrightarrow>
   dlv (JObj (write_entries row post obj)) kp = dlv (JObj obj) kp"
  by (induction post arbitrary: obj) (auto simp: dlv_dset_other)

lemma row_to_obj_read:
  assumes "\<forall>ent \<in> set post. independent (fst (snd ent)) kp"
  shows "dlv (JObj (row_to_obj (pre @ (h, kp, zt) # post) row)) kp = obj_get row h"
  using assms by (simp add: row_to_obj_def write_entries_append write_entries_frame dlv_dset_same)

lemma set_creates_container:
  "r \<noteq> [] \<Longrightarrow> \<exists>c. get_path (JObj (set_path kvs (p @ r) v)) p = JObj c"
proof (induction p arbitrary: kvs)
  case Nil
  then show ?case by simp
next
  case (Cons k ps)
  then obtain k' ks where e: "ps @ r = k' # ks" by (cases "ps @ r") auto
  have "\<exists>c. get_path (JObj (set_path sub (ps @ r) v)) ps = JObj c" for sub
    using Cons by blast
  then show ?case
    by (simp add: e [symmetric] obj_get_obj_set del: append_eq_Cons_conv) (simp add: e obj_get_obj_set)
qed

lemma write_entries_container:
  "get_path (JObj obj) p = JObj c \<Longrightarrow>
   \<forall>ent \<in> set post. \<not> prefix (split_on (CHR ''.'') (fst (snd ent))) p \<Longrightarrow>
   \<exists>c'. get_path (JObj (write_entries row post obj)) p = JObj c'"
proof (induction post arbitrary: obj c)
  case Nil
  then show ?case by simp
next
  case (Cons ent post)
  obtain h kp zt where ent: "ent = (h, kp, zt)" by (cases ent) auto
  from Cons.prems have "\<not> prefix (split_on (CHR ''.'') kp) p" by (simp add: ent)
  with Cons.prems(1) obtain c' where "get_path (JObj (dset obj kp (obj_get row h))) p = JObj c'"
    unfolding dset_def using set_keeps_container split_on_not_Nil by blast
  with Cons show ?case by (simp add: ent)
qed

section \<open>The validation shape and the decoded rows\<close>

lemma keys_obj_set:
  "map fst (obj_set k v kvs) = (if k \<in> set (map fst kvs) then map fst kvs else map fst kvs @ [k])"
  by (induction kvs) (force simp: image_iff)+

lemma distinct_obj_set: "distinct (map fst kvs) \<Longrightarrow> distinct (map fst (obj_set k v kvs))"
  by (simp add: keys_obj_set)

lemma obj_set_fresh: "k \<notin> set (map fst kvs) \<Longrightarrow> obj_set k v kvs = kvs @ [(k, v)]"
  by (induction kvs) auto

lemma foldl_obj_set_distinct:
  "distinct (map fst acc) \<Longrightarrow>
   distinct (map fst (foldl (\<lambda>acc (k, v). obj_set k v acc) acc es))"
  by (induction es arbitrary: acc) (auto simp: distinct_obj_set split: prod.splits)

lemma distinct_from_entries: "distinct (map fst (from_entries es))"
  by (simp add: from_entries_def foldl_obj_set_distinct)

lemma foldl_obj_set_fresh:
  "distinct (map fst (acc @ es)) \<Longrightarrow> foldl (\<lambda>acc (k, v). obj_set k v acc) acc es = acc @ es"
proof (induction es arbitrary: acc)
  case Nil
  then show ?case by simp
next
  case (Cons e es)
  obtain k v where e: "e = (k, v)" by (cases e) auto
  from Cons.prems have "k \<notin> set (map fst acc)" by (auto simp: e)
  then have s: "obj_set k v acc = acc @ [(k, v)]" by (rule obj_set_fresh)
  from Cons.prems have "distinct (map fst ((acc @ [(k, v)]) @ es))" by (simp add: e)
  then show ?case using Cons.IH [of "acc @ [(k, v)]"] by (simp add: e s)
qed

lemma from_entries_distinct: "distinct (map fst es) \<Longrightarrow> from_entries es = es"
  using foldl_obj_set_fresh [of "[]" es] by (simp add: from_entries_def)

lemma validation_shape_distinct:
  assumes "distinct (map fst sch)"
  shows "validation_shape sch = map (\<lambda>(h, kp, zt). (h, zt)) sch"
proof -
  have "map fst (map (\<lambda>(h, kp, zt). (h, zt)) sch) = map fst sch"
    by (induction sch) auto
  with assms have "distinct (map fst (map (\<lambda>(h, kp, zt). (h, zt)) sch))"
    by (simp only:)
  then show ?thesis
    by (simp only: validation_shape_def from_entries_distinct)
qed

lemma decode_cell_Inr:
  "decode zt (obj_get raw h) = Inr v \<Longrightarrow> decode_cell i raw (h, zt) = Inr (h, v)"
  by (simp add: decode_cell_def)

lemma decode_cell_Inl:
  "decode zt (obj_get raw h) = Inl m \<Longrightarrow> decode_cell i raw (h, zt) = Inl (Issue i h m)"
  by (simp add: decode_cell_def)

lemma decode_rows_nth:
  "decode_rows shape rows = map (\<lambda>i. map (decode_cell i (rows ! i)) shape) [0..<length rows]"
  by (rule nth_equalityI) (auto simp: decode_rows_def nth_enumerate_eq)

lemma lefts_Nil_rights: "lefts xs = [] \<Longrightarrow> map Inr (rights xs) = xs"
  by (induction xs rule: lefts.induct) auto

lemma concat_Nil_iff: "concat xss = [] \<longleftrightarrow> (\<forall>xs \<in> set xss. xs = [])"
  by (induction xss) auto

lemma zod_decode_Inr:
  assumes "zod_decode shape raws = Inr rows"
  shows "length rows = length raws"
    and "i < length raws \<Longrightarrow> lefts (map (decode_cell i (raws ! i)) shape) = []"
    and "i < length raws \<Longrightarrow> rows ! i = rights (map (decode_cell i (raws ! i)) shape)"
proof -
  from assms have n: "concat (map lefts (decode_rows shape raws)) = []"
    and r: "rows = map rights (decode_rows shape raws)"
    by (auto simp: zod_decode_def Let_def split: if_splits)
  show "length rows = length raws" by (simp add: r decode_rows_nth)
  show "i < length raws \<Longrightarrow> lefts (map (decode_cell i (raws ! i)) shape) = []"
    using n by (auto simp: decode_rows_nth concat_Nil_iff)
  show "i < length raws \<Longrightarrow> rows ! i = rights (map (decode_cell i (raws ! i)) shape)"
    by (simp add: r decode_rows_nth)
qed

lemma decoded_value:
  assumes "lefts (map (decode_cell i raw) shape) = []" "distinct (map fst shape)" "(h, zt) \<in> set shape"
  shows "decode zt (obj_get raw h) = Inr (obj_get (rights (map (decode_cell i raw) shape)) h)"
  using assms
proof (induction shape)
  case Nil
  then show ?case by simp
next
  case (Cons a shape)
  obtain h' zt' where a: "a = (h', zt')" by (cases a) auto
  from Cons.prems(1) obtain v where v: "decode zt' (obj_get raw h') = Inr v"
    by (cases "decode zt' (obj_get raw h')") (auto simp: a decode_cell_Inl)
  with Cons.prems(1) have rest: "lefts (map (decode_cell i raw) shape) = []"
    by (simp add: a decode_cell_Inr)
  show ?case
  proof (cases "h = h'")
    case True
    with Cons.prems(2,3) have "zt = zt'" by (auto simp: a image_iff)
    with True v show ?thesis by (simp add: a decode_cell_Inr obj_get_def)
  next
    case False
    with Cons.prems have "(h, zt) \<in> set shape" "distinct (map fst shape)" by (auto simp: a)
    with rest Cons.IH have "decode zt (obj_get raw h) = Inr (obj_get (rights (map (decode_cell i raw) shape)) h)"
      by blast
    with False v show ?thesis by (simp add: a decode_cell_Inr obj_get_def)
  qed
qed

lemma issue_locations:
  "map (\<lambda>x. (issue_row x, issue_key x)) (lefts (map (decode_cell i raw) shape)) =
   map (Pair i) (map fst (filter (\<lambda>hc. isl (decode (snd hc) (obj_get raw (fst hc)))) shape))"
  by (induction shape) (auto simp: decode_cell_def split: sum.splits)

lemma distinct_concat_pairs:
  "distinct xs \<Longrightarrow> (\<And>x. distinct (g x)) \<Longrightarrow> distinct (concat (map (\<lambda>x. map (Pair x) (g x)) xs))"
  by (induction xs) (auto simp: distinct_map inj_on_def)

lemma cell_fails_iff:
  "distinct (map fst shape) \<Longrightarrow>
   k \<in> set (map fst (filter (\<lambda>hc. isl (decode (snd hc) (obj_get raw (fst hc)))) shape)) \<longleftrightarrow>
   (case map_of shape k of None \<Rightarrow> False | Some zt \<Rightarrow> isl (decode zt (obj_get raw k)))"
  by (induction shape) (auto simp: image_iff split: option.splits)

lemma independent_sym: "independent a b \<Longrightarrow> independent b a"
  by (auto simp: independent_def)

lemma import_rows:
  assumes "errors (parse (import_config (opts_parse sz)) csvStr) = []"
    and "zod_decode (validation_shape (schema sz)) (data (parse (import_config (opts_parse sz)) csvStr)) = Inr rows"
  shows "import parse sz csvStr = Inr (map (\<lambda>row. JObj (row_to_obj (schema sz) row)) rows)"
  using assms by (simp add: import_def Let_def)

lemma row_to_obj_shared:
  assumes p1: "split_on (CHR ''.'') kp1 = p @ r1"
    and p2: "split_on (CHR ''.'') kp2 = p @ r2"
    and ne: "r1 \<noteq> []"
    and ind: "independent kp1 kp2"
    and mids: "\<forall>ent \<in> set mid. independent (fst (snd ent)) kp1"
    and posts: "\<forall>ent \<in> set post. independent (fst (snd ent)) kp1 \<and> independent (fst (snd ent)) kp2"
  shows "\<exists>c. get_path (JObj (row_to_obj (pre @ (h1, kp1, zt1) # mid @ (h2, kp2, zt2) # post) row)) p = JObj c \<and>
             get_path (JObj c) r1 = obj_get row h1 \<and>
             get_path (JObj c) r2 = obj_get row h2"
proof -
  let ?sch = "pre @ (h1, kp1, zt1) # mid @ (h2, kp2, zt2) # post"
  let ?obj = "row_to_obj ?sch row"
  let ?rest = "mid @ (h2, kp2, zt2) # post"
  have rest1: "\<forall>ent \<in> set ?rest. independent (fst (snd ent)) kp1"
    using mids posts ind by (auto dest: independent_sym)
  have r1: "dlv (JObj ?obj) kp1 = obj_get row h1"
    using row_to_obj_read [OF rest1] by simp
  have "\<forall>ent \<in> set post. independent (fst (snd ent)) kp2"
    using posts by simp
  from row_to_obj_read [OF this, of "pre @ (h1, kp1, zt1) # mid" h2 zt2 row]
  have r2: "dlv (JObj ?obj) kp2 = obj_get row h2" by simp
  obtain c0 where c0: "get_path (JObj (dset (write_entries row pre []) kp1 (obj_get row h1))) p = JObj c0"
    unfolding dset_def p1 using set_creates_container [OF ne] by blast
  have np: "\<forall>ent \<in> set ?rest. \<not> prefix (split_on (CHR ''.'') (fst (snd ent))) p"
  proof
    fix ent assume "ent \<in> set ?rest"
    with rest1 have "\<not> prefix (split_on (CHR ''.'') (fst (snd ent))) (p @ r1)"
      by (auto simp: independent_def p1)
    then show "\<not> prefix (split_on (CHR ''.'') (fst (snd ent))) p"
      using prefix_prefix by blast
  qed
  have "?obj = write_entries row ?rest (dset (write_entries row pre []) kp1 (obj_get row h1))"
    by (simp add: row_to_obj_def write_entries_append)
  with write_entries_container [OF c0 np, of row]
  obtain c where c: "get_path (JObj ?obj) p = JObj c" by auto
  from r1 have "get_path (JObj c) r1 = obj_get row h1"
    by (simp add: dlv_def p1 get_path_append c)
  moreover from r2 have "get_path (JObj c) r2 = obj_get row h2"
    by (simp add: dlv_def p2 get_path_append c)
  ultimately show ?thesis using c by blast
qed

lemma all_issue_locations:
  "map (\<lambda>x. (issue_row x, issue_key x)) (concat (map lefts (decode_rows shape raws))) =
   concat (map (\<lambda>i. map (Pair i)
                        (map fst (filter (\<lambda>hc. isl (decode (snd hc) (obj_get (raws ! i) (fst hc)))) shape)))
               [0..<length raws])"
  by (simp add: decode_rows_nth map_concat comp_def issue_locations)

lemma zod_decode_issues:
  assumes d: "distinct (map fst shape)"
    and i: "i < length raws"
    and f: "cell_fails shape (raws ! i) h"
  shows "\<exists>issues. zod_decode shape raws = Inl issues \<and>
           distinct (map (\<lambda>x. (issue_row x, issue_key x)) issues) \<and>
           (\<forall>j k. (j, k) \<in> set (map (\<lambda>x. (issue_row x, issue_key x)) issues) \<longleftrightarrow>
                  j < length raws \<and> cell_fails shape (raws ! j) k)"
proof -
  let ?issues = "concat (map lefts (decode_rows shape raws))"
  let ?g = "\<lambda>i. map fst (filter (\<lambda>hc. isl (decode (snd hc) (obj_get (raws ! i) (fst hc)))) shape)"
  have loc: "map (\<lambda>x. (issue_row x, issue_key x)) ?issues = concat (map (\<lambda>i. map (Pair i) (?g i)) [0..<length raws])"
    by (rule all_issue_locations)
  have dg: "distinct (?g j)" for j
    using d by (rule distinct_map_filter)
  have dist: "distinct (map (\<lambda>x. (issue_row x, issue_key x)) ?issues)"
    unfolding loc by (rule distinct_concat_pairs) (simp_all add: dg)
  have mem: "(j, k) \<in> set (map (\<lambda>x. (issue_row x, issue_key x)) ?issues) \<longleftrightarrow>
               j < length raws \<and> cell_fails shape (raws ! j) k" for j k
  proof -
    have "(j, k) \<in> set (map (\<lambda>x. (issue_row x, issue_key x)) ?issues) \<longleftrightarrow> j < length raws \<and> k \<in> set (?g j)"
      unfolding loc by auto
    also have "\<dots> \<longleftrightarrow> j < length raws \<and> cell_fails shape (raws ! j) k"
      using cell_fails_iff [OF d, of k "raws ! j"] by (simp add: cell_fails_def)
    finally show ?thesis .
  qed
  from i f mem have "(i, h) \<in> set (map (\<lambda>x. (issue_row x, issue_key x)) ?issues)" by blast
  moreover have "(i, h) \<in> set (map (\<lambda>x. (issue_row x, issue_key x)) xs) \<Longrightarrow> xs \<noteq> []" for xs
    by auto
  ultimately have "?issues \<noteq> []" by blast
  then have "zod_decode shape raws = Inl ?issues"
    by (simp add: zod_decode_def Let_def)
  with dist mem show ?thesis by blast
qed

section \<open>Tokenizer errors\<close>

text \<open>
  C7. When the tokenizer reports at least one structural error, \<open>import\<close> fails with an
  error that carries all reported tokenizer issues and the tokenizer's metadata. The
  result does not depend on the schema or its codecs: nothing is decoded and no record
  is returned.
\<close>

theorem import_tokenizer_error:
  assumes "errors (parse (import_config (opts_parse sz)) csvStr) \<noteq> []"
  shows "import parse sz csvStr =
           Inl (AggregateError (errors (parse (import_config (opts_parse sz)) csvStr))
                               (meta (parse (import_config (opts_parse sz)) csvStr)))"
  using assms by (simp add: import_def Let_def)

theorem import_tokenizer_error_witness:
  "errors (papa_parse (import_config (opts_parse scenario)) ''ID,Score\<newline>101,95,7'') \<noteq> [] \<and>
   import papa_parse scenario ''ID,Score\<newline>101,95,7'' =
     Inl (AggregateError [PapaError ''TooManyFields'' 0]
            \<lparr>meta_delimiter = CHR '','', meta_fields = [''ID'', ''Score'']\<rparr>)"
proof -
  have e: "errors (papa_parse (import_config (opts_parse scenario)) ''ID,Score\<newline>101,95,7'')
             = [PapaError ''TooManyFields'' 0]"
    by code_simp
  have m: "meta (papa_parse (import_config (opts_parse scenario)) ''ID,Score\<newline>101,95,7'')
             = \<lparr>meta_delimiter = CHR '','', meta_fields = [''ID'', ''Score'']\<rparr>"
    by code_simp
  have ne: "errors (papa_parse (import_config (opts_parse scenario)) ''ID,Score\<newline>101,95,7'') \<noteq> []"
    unfolding e by simp
  show ?thesis
    using import_tokenizer_error [of papa_parse scenario "''ID,Score\<newline>101,95,7''"] ne
    unfolding e m by simp
qed

section \<open>Validation errors\<close>

text \<open>
  C2, as amended. When the tokenizer reports no structural error and at least one cell
  fails the codec its header is paired with, \<open>import\<close> fails with one validation error and
  returns no record. The error holds exactly one issue for every failing pair of row index
  and header of the whole input, and no issue for any other pair.
\<close>

theorem import_validation_error:
  assumes "errors (parse (import_config (opts_parse sz)) csvStr) = []"
    and "i < length (data (parse (import_config (opts_parse sz)) csvStr))"
    and "cell_fails (validation_shape (schema sz)) (data (parse (import_config (opts_parse sz)) csvStr) ! i) h"
  shows "\<exists>issues. import parse sz csvStr = Inl (ZodError issues) \<and>
           distinct (map (\<lambda>x. (issue_row x, issue_key x)) issues) \<and>
           (\<forall>j k. (j, k) \<in> set (map (\<lambda>x. (issue_row x, issue_key x)) issues) \<longleftrightarrow>
                  j < length (data (parse (import_config (opts_parse sz)) csvStr)) \<and>
                  cell_fails (validation_shape (schema sz))
                    (data (parse (import_config (opts_parse sz)) csvStr) ! j) k)"
proof -
  have "distinct (map fst (validation_shape (schema sz)))"
    by (simp add: validation_shape_def distinct_from_entries)
  from zod_decode_issues [OF this assms(2,3)] obtain issues where
    z: "zod_decode (validation_shape (schema sz)) (data (parse (import_config (opts_parse sz)) csvStr)) = Inl issues"
    and r: "distinct (map (\<lambda>x. (issue_row x, issue_key x)) issues)"
       "\<forall>j k. (j, k) \<in> set (map (\<lambda>x. (issue_row x, issue_key x)) issues) \<longleftrightarrow>
                  j < length (data (parse (import_config (opts_parse sz)) csvStr)) \<and>
                  cell_fails (validation_shape (schema sz))
                    (data (parse (import_config (opts_parse sz)) csvStr) ! j) k"
    by blast
  from z assms(1) have "import parse sz csvStr = Inl (ZodError issues)"
    by (simp add: import_def Let_def)
  with r show ?thesis by blast
qed

theorem import_validation_error_witness:
  "cell_fails (validation_shape (schema scenario))
     (data (papa_parse (import_config (opts_parse scenario)) ''ID,Score\<newline>101,95\<newline>102,nan\<newline>103,7'') ! 1) ''Score'' \<and>
   import papa_parse scenario ''ID,Score\<newline>101,95\<newline>102,nan\<newline>103,7'' =
     Inl (ZodError [Issue 1 ''Score'' ''invalid_format''])"
proof -
  have e: "errors (papa_parse (import_config (opts_parse scenario)) ''ID,Score\<newline>101,95\<newline>102,nan\<newline>103,7'') = []"
    by code_simp
  have i: "1 < length (data (papa_parse (import_config (opts_parse scenario)) ''ID,Score\<newline>101,95\<newline>102,nan\<newline>103,7''))"
    by code_simp
  have f: "cell_fails (validation_shape (schema scenario))
     (data (papa_parse (import_config (opts_parse scenario)) ''ID,Score\<newline>101,95\<newline>102,nan\<newline>103,7'') ! 1) ''Score''"
    by code_simp
  have v: "import papa_parse scenario ''ID,Score\<newline>101,95\<newline>102,nan\<newline>103,7'' =
     Inl (ZodError [Issue 1 ''Score'' ''invalid_format''])"
    by code_simp
  from import_validation_error
         [where parse = papa_parse and sz = scenario
            and csvStr = "''ID,Score\<newline>101,95\<newline>102,nan\<newline>103,7''", OF e i f]
  obtain issues where
    "import papa_parse scenario ''ID,Score\<newline>101,95\<newline>102,nan\<newline>103,7'' = Inl (ZodError issues)"
    by blast
  with v f show ?thesis by simp
qed

text \<open>
  C2 as stated fails on an input that has a failing cell and a structural error: the guard
  on the tokenizer's errors comes first, and the error thrown carries the tokenizer's
  issues, not one issue per failing cell.
\<close>

theorem import_validation_error_counterexample:
  "cell_fails (validation_shape (schema scenario))
     (data (papa_parse (import_config (opts_parse scenario)) ''ID,Score\<newline>101,nan,7'') ! 0) ''Score'' \<and>
   import papa_parse scenario ''ID,Score\<newline>101,nan,7'' =
     Inl (AggregateError [PapaError ''TooManyFields'' 0]
            \<lparr>meta_delimiter = CHR '','', meta_fields = [''ID'', ''Score'']\<rparr>)"
  by code_simp

section \<open>Columns on one key-path\<close>

text \<open>
  C10, as amended. Two columns with the same key-path, where no column written after the
  later one has a key-path that is equal to, a prefix of or an extension of it:
  \<open>import\<close> returns, and in every record the value read at the key-path is the decoded
  value of the later column.
\<close>

theorem import_last_write_wins:
  assumes "errors (parse (import_config (opts_parse sz)) csvStr) = []"
    and "zod_decode (validation_shape (schema sz)) (data (parse (import_config (opts_parse sz)) csvStr)) = Inr rows"
    and "schema sz = pre @ (h1, kp, zt1) # mid @ (h2, kp, zt2) # post"
    and "\<forall>ent \<in> set post. independent (fst (snd ent)) kp"
  shows "\<exists>objs. import parse sz csvStr = Inr objs \<and> length objs = length rows \<and>
           (\<forall>i < length rows. dlv (objs ! i) kp = obj_get (rows ! i) h2)"
proof -
  have "import parse sz csvStr = Inr (map (\<lambda>row. JObj (row_to_obj (schema sz) row)) rows)"
    using assms(1,2) by (rule import_rows)
  moreover have "dlv (JObj (row_to_obj (schema sz) row)) kp = obj_get row h2" for row
    using row_to_obj_read [OF assms(4), of "pre @ (h1, kp, zt1) # mid" h2 zt2 row]
    by (simp add: assms(3))
  ultimately show ?thesis by simp
qed

theorem import_last_write_wins_witness:
  "\<exists>objs. import papa_parse same_path ''A,B\<newline>1,2'' = Inr objs \<and>
      length objs = length [[(''A'', JStr ''1''), (''B'', JStr ''2'')]] \<and>
      (\<forall>i < length [[(''A'', JStr ''1''), (''B'', JStr ''2'')]].
          dlv (objs ! i) ''x'' = obj_get ([[(''A'', JStr ''1''), (''B'', JStr ''2'')]] ! i) ''B'')"
proof -
  have e: "errors (papa_parse (import_config (opts_parse same_path)) ''A,B\<newline>1,2'') = []"
    by code_simp
  have d: "zod_decode (validation_shape (schema same_path))
             (data (papa_parse (import_config (opts_parse same_path)) ''A,B\<newline>1,2'')) =
           Inr [[(''A'', JStr ''1''), (''B'', JStr ''2'')]]"
    by code_simp
  have s: "schema same_path = [] @ (''A'', ''x'', z_string) # [] @ (''B'', ''x'', z_string) # []"
    by (simp add: same_path_def)
  show ?thesis
    using import_last_write_wins
            [where parse = papa_parse and sz = same_path and csvStr = "''A,B\<newline>1,2''"
               and pre = "[]" and mid = "[]" and post = "[]",
             OF e d s]
    by simp
qed

text \<open>
  C10 as stated fails when a later column writes below the shared key-path: after \<open>x\<close>,
  \<open>x\<close>, \<open>x.y\<close> the value at \<open>x\<close> is a container, not the second column's value.
\<close>

theorem import_last_write_wins_counterexample:
  "import papa_parse same_path_then_child ''A,B,C\<newline>1,2,3'' =
     Inr [JObj [(''x'', JObj [(''y'', JStr ''3'')])]] \<and>
   dlv (JObj [(''x'', JObj [(''y'', JStr ''3'')])]) ''x'' \<noteq> JStr ''2''"
  by code_simp

section \<open>Absent values on export\<close>





section \<open>Columns that share a path prefix\<close>

text \<open>
  C6, as amended. Two columns whose key-paths share a prefix \<open>p\<close> and go on below it, where
  the key-path of each of the two is independent of the key-path of every column that
  follows it in schema order (so the two are independent of each other, and no column
  after the first, or after the second, has a key-path that is equal to, a prefix of or an
  extension of its key-path): \<open>import\<close> returns, and in every record one container sits
  at \<open>p\<close> and holds the decoded values of both columns at the rest of their paths.
\<close>

theorem import_shared_prefix:
  assumes "errors (parse (import_config (opts_parse sz)) csvStr) = []"
    and "zod_decode (validation_shape (schema sz)) (data (parse (import_config (opts_parse sz)) csvStr)) = Inr rows"
    and "schema sz = pre @ (h1, kp1, zt1) # mid @ (h2, kp2, zt2) # post"
    and "split_on (CHR ''.'') kp1 = p @ r1"
    and "split_on (CHR ''.'') kp2 = p @ r2"
    and "p \<noteq> []" and "r1 \<noteq> []" and "r2 \<noteq> []"
    and "\<forall>ent \<in> set (mid @ (h2, kp2, zt2) # post). independent (fst (snd ent)) kp1"
    and "\<forall>ent \<in> set post. independent (fst (snd ent)) kp2"
  shows "\<exists>objs. import parse sz csvStr = Inr objs \<and> length objs = length rows \<and>
           (\<forall>i < length rows. \<exists>c.
              get_path (objs ! i) p = JObj c \<and>
              get_path (JObj c) r1 = obj_get (rows ! i) h1 \<and>
              get_path (JObj c) r2 = obj_get (rows ! i) h2)"
proof -
  have "import parse sz csvStr = Inr (map (\<lambda>row. JObj (row_to_obj (schema sz) row)) rows)"
    using assms(1,2) by (rule import_rows)
  moreover have ind: "independent kp1 kp2"
    using assms(9) by (auto dest: independent_sym)
  have mids: "\<forall>ent \<in> set mid. independent (fst (snd ent)) kp1"
    using assms(9) by simp
  have posts: "\<forall>ent \<in> set post. independent (fst (snd ent)) kp1 \<and> independent (fst (snd ent)) kp2"
    using assms(9,10) by simp
  have "\<exists>c. get_path (JObj (row_to_obj (schema sz) row)) p = JObj c \<and>
             get_path (JObj c) r1 = obj_get row h1 \<and> get_path (JObj c) r2 = obj_get row h2" for row
    unfolding assms(3) using assms(4,5,7) ind mids posts by (rule row_to_obj_shared)
  ultimately show ?thesis by simp
qed

theorem import_shared_prefix_witness:
  "independent ''meta.scores.primary'' ''meta.createdAt'' \<and>
   (\<exists>objs. import papa_parse path_sharing ''Created At,Score\<newline>2023-01-01,95'' = Inr objs \<and>
      length objs = length [[(''Created At'', JStr ''2023-01-01''), (''Score'', JNum 95)]] \<and>
      (\<forall>i < length [[(''Created At'', JStr ''2023-01-01''), (''Score'', JNum 95)]]. \<exists>c.
          get_path (objs ! i) [''meta''] = JObj c \<and>
          get_path (JObj c) [''createdAt''] =
            obj_get ([[(''Created At'', JStr ''2023-01-01''), (''Score'', JNum 95)]] ! i) ''Created At'' \<and>
          get_path (JObj c) [''scores'', ''primary''] =
            obj_get ([[(''Created At'', JStr ''2023-01-01''), (''Score'', JNum 95)]] ! i) ''Score''))"
proof -
  have e: "errors (papa_parse (import_config (opts_parse path_sharing)) ''Created At,Score\<newline>2023-01-01,95'') = []"
    by code_simp
  have d: "zod_decode (validation_shape (schema path_sharing))
             (data (papa_parse (import_config (opts_parse path_sharing)) ''Created At,Score\<newline>2023-01-01,95'')) =
           Inr [[(''Created At'', JStr ''2023-01-01''), (''Score'', JNum 95)]]"
    by code_simp
  have s: "schema path_sharing =
             [] @ (''Created At'', ''meta.createdAt'', z_string) # [] @
                  (''Score'', ''meta.scores.primary'', z_optional z_score) # []"
    by (simp add: path_sharing_def)
  have p1: "split_on (CHR ''.'') ''meta.createdAt'' = [''meta''] @ [''createdAt'']"
    by code_simp
  have p2: "split_on (CHR ''.'') ''meta.scores.primary'' = [''meta''] @ [''scores'', ''primary'']"
    by code_simp
  have i: "independent ''meta.scores.primary'' ''meta.createdAt''"
    by code_simp
  then have a: "\<forall>ent \<in> set ([] @ (''Score'', ''meta.scores.primary'', z_optional z_score) # []).
                  independent (fst (snd ent)) ''meta.createdAt''"
    by simp
  show ?thesis
    using import_shared_prefix
            [where parse = papa_parse and sz = path_sharing
               and csvStr = "''Created At,Score\<newline>2023-01-01,95''"
               and pre = "[]" and mid = "[]" and post = "[]",
             OF e d s p1 p2 _ _ _ a] i
    by simp
qed

text \<open>
  C6 as stated fails when one key-path is a prefix of the other: \<open>a.b\<close> and \<open>a.b.c\<close>
  share the proper prefix \<open>a\<close>, and the second write replaces the first column's value at
  \<open>a.b\<close> by a container.
\<close>

theorem import_shared_prefix_counterexample:
  "import papa_parse leaf_then_child ''A,B\<newline>1,2'' =
     Inr [JObj [(''a'', JObj [(''b'', JObj [(''c'', JStr ''2'')])])]] \<and>
   dlv (JObj [(''a'', JObj [(''b'', JObj [(''c'', JStr ''2'')])])]) ''a.b'' \<noteq> JStr ''1''"
  by code_simp

section \<open>The read of export\<close>





section \<open>Falsy leaves\<close>

text \<open>
  C8, as amended. Whatever the value at a column's key-path is, \<open>false\<close> and \<open>0\<close>
  included, it reaches the codec's encode side unchanged, and the cell is the encode
  output, except that a nullish encode output is written as the empty string. So the cell
  is empty exactly when the encode output is nullish or the empty string.
\<close>

theorem export_falsy_cell:
  assumes "encode zt (dlv e kp) = Inr out"
  shows "export_cell e (h, kp, zt) = Inr (if nullish out then JStr [] else out) \<and>
         (export_cell e (h, kp, zt) = Inr (JStr []) \<longleftrightarrow> nullish out \<or> out = JStr [])"
  using assms by (auto simp: export_cell_eq coalesce_def)

theorem export_falsy_cell_witness:
  "export_cell (JObj [(''isAdmin'', JBool False)]) (''Is Admin'', ''isAdmin'', z_boolean) = Inr (JBool False) \<and>
   export_cell (JObj [(''meta'', JObj [(''scores'', JObj [(''primary'', JNum 0)])])])
     (''Score'', ''meta.scores.primary'', z_score) = Inr (JStr ''0'') \<and>
   export papa_unparse falsy_leaves
     [JObj [(''isAdmin'', JBool False), (''meta'', JObj [(''scores'', JObj [(''primary'', JNum 0)])])]] =
     Inr (''Is Admin,Score'' @ [CHR 0x0D, CHR 0x0A] @ ''false,0'')"
proof -
  have e1: "encode z_boolean (dlv (JObj [(''isAdmin'', JBool False)]) ''isAdmin'') = Inr (JBool False)"
    by code_simp
  have e2: "encode z_score (dlv (JObj [(''meta'', JObj [(''scores'', JObj [(''primary'', JNum 0)])])]) ''meta.scores.primary'')
              = Inr (JStr ''0'')"
    by code_simp
  have x: "export papa_unparse falsy_leaves
     [JObj [(''isAdmin'', JBool False), (''meta'', JObj [(''scores'', JObj [(''primary'', JNum 0)])])]] =
     Inr (''Is Admin,Score'' @ [CHR 0x0D, CHR 0x0A] @ ''false,0'')"
    by code_simp
  have "export_cell (JObj [(''isAdmin'', JBool False)]) (''Is Admin'', ''isAdmin'', z_boolean) = Inr (JBool False)"
    using export_falsy_cell [OF e1, of "''Is Admin''"] by simp
  moreover have "export_cell (JObj [(''meta'', JObj [(''scores'', JObj [(''primary'', JNum 0)])])])
     (''Score'', ''meta.scores.primary'', z_score) = Inr (JStr ''0'')"
    using export_falsy_cell [OF e2, of "''Score''"] by simp
  ultimately show ?thesis using x by blast
qed

text \<open>
  C8 as stated fails for a codec that encodes \<open>false\<close> to the empty string: the leaf is
  defined and falsy, and the cell is empty.
\<close>

theorem export_falsy_cell_counterexample:
  "dlv (JObj [(''isAdmin'', JBool False)]) ''isAdmin'' = JBool False \<and>
   encode yes_blank (JBool False) = Inr (JStr []) \<and>
   export_cell (JObj [(''isAdmin'', JBool False)]) (''Is Admin'', ''isAdmin'', yes_blank) = Inr (JStr [])"
  by code_simp

section \<open>The header line\<close>

lemma join_with_Cons: "join_with sep (x # xs) = x @ concat (map (\<lambda>y. sep @ y) xs)"
  by (induction xs arbitrary: x) auto

lemma header_line:
  "unparse_line uo (hdrRow sch) =
     join_with [unparse_delim uo] (map (\<lambda>ent. quote_cell (unparse_delim uo) (fst ent)) sch)"
proof -
  have "map (\<lambda>c. quote_cell (unparse_delim uo) (cell_text c)) (hdrRow sch) =
          map (\<lambda>ent. quote_cell (unparse_delim uo) (fst ent)) sch"
    by (induction sch) (auto simp: hdrRow_def)
  then show ?thesis by (simp add: unparse_line_def)
qed

lemma header_line_plain:
  assumes "\<forall>ent \<in> set sch. \<not> needs_quotes (unparse_delim uo) (fst ent)"
  shows "unparse_line uo (hdrRow sch) = join_with [unparse_delim uo] (map fst sch)"
proof -
  from assms have m: "map (\<lambda>ent. quote_cell (unparse_delim uo) (fst ent)) sch = map fst sch"
    by (induction sch) (auto simp: quote_cell_def)
  show ?thesis unfolding header_line m by (rule refl)
qed

lemma export_Inr:
  "export unparse sz entries = Inr out \<Longrightarrow>
   \<exists>rows. out = unparse (opts_unparse sz) (hdrRow (schema sz) # rows) \<and> (entries = [] \<longrightarrow> rows = [])"
  by (auto simp: export_def split: sum.splits)

lemma first_line_append:
  assumes "nl \<noteq> []" "hd nl \<notin> set hl" "rest = [] \<or> prefix nl rest"
  shows "first_line nl (hl @ rest) = hl"
  using assms
proof (induction hl)
  case Nil
  then show ?case by (cases rest) auto
next
  case (Cons c hl)
  then have "\<not> prefix nl (c # hl @ rest)"
    by (cases nl) auto
  with Cons show ?case by simp
qed

text \<open>
  C4, as amended. On the empty sequence \<open>export\<close> returns the header row as the writer
  renders it: the schema's headers in schema order, each between quotes where the writer's
  quoting rule asks for it, joined by the delimiter. Every output of \<open>export\<close> starts with
  that row, followed by nothing or by the line terminator. When no header needs quoting,
  the line terminator is not empty and its first character does not occur in the joined
  headers, the first line of the output is exactly the schema's headers joined in schema
  order.
\<close>

theorem export_header_first:
  "export papa_unparse sz [] = Inr (unparse_line (opts_unparse sz) (hdrRow (schema sz))) \<and>
   (\<forall>out. export papa_unparse sz entries = Inr out \<longrightarrow>
      (\<exists>rest. out = unparse_line (opts_unparse sz) (hdrRow (schema sz)) @ rest \<and>
              (rest = [] \<or> prefix (unparse_nl (opts_unparse sz)) rest)) \<and>
      ((\<forall>ent \<in> set (schema sz). \<not> needs_quotes (unparse_delim (opts_unparse sz)) (fst ent)) \<and>
       unparse_nl (opts_unparse sz) \<noteq> [] \<and>
       hd (unparse_nl (opts_unparse sz)) \<notin>
         set (join_with [unparse_delim (opts_unparse sz)] (map fst (schema sz))) \<longrightarrow>
       first_line (unparse_nl (opts_unparse sz)) out =
         join_with [unparse_delim (opts_unparse sz)] (map fst (schema sz))))"
proof (intro conjI allI impI)
  show "export papa_unparse sz [] = Inr (unparse_line (opts_unparse sz) (hdrRow (schema sz)))"
    by (simp add: export_def papa_unparse_def)
next
  fix out
  assume x: "export papa_unparse sz entries = Inr out"
  let ?uo = "opts_unparse sz"
  from x obtain rows where rows: "out = papa_unparse ?uo (hdrRow (schema sz) # rows)"
    using export_Inr by blast
  define rest where "rest = concat (map (\<lambda>y. unparse_nl ?uo @ y) (map (unparse_line ?uo) rows))"
  have o: "out = unparse_line ?uo (hdrRow (schema sz)) @ rest"
    by (simp add: rows papa_unparse_def join_with_Cons rest_def)
  have r: "rest = [] \<or> prefix (unparse_nl ?uo) rest"
    by (cases rows) (auto simp: rest_def prefix_def)
  from o r show "\<exists>rest. out = unparse_line ?uo (hdrRow (schema sz)) @ rest \<and>
                   (rest = [] \<or> prefix (unparse_nl ?uo) rest)"
    by blast
  assume h: "(\<forall>ent \<in> set (schema sz). \<not> needs_quotes (unparse_delim ?uo) (fst ent)) \<and>
       unparse_nl ?uo \<noteq> [] \<and>
       hd (unparse_nl ?uo) \<notin> set (join_with [unparse_delim ?uo] (map fst (schema sz)))"
  then have q: "\<forall>ent \<in> set (schema sz). \<not> needs_quotes (unparse_delim ?uo) (fst ent)"
    and n: "unparse_nl ?uo \<noteq> []"
    and m: "hd (unparse_nl ?uo) \<notin> set (join_with [unparse_delim ?uo] (map fst (schema sz)))"
    by blast+
  from first_line_append [OF n m r]
  show "first_line (unparse_nl ?uo) out = join_with [unparse_delim ?uo] (map fst (schema sz))"
    by (simp add: o header_line_plain [OF q])
qed

theorem export_header_first_witness:
  "export papa_unparse scenario [] = Inr ''ID,Score'' \<and>
   first_line (unparse_nl (opts_unparse scenario)) ''ID,Score'' = ''ID,Score'' \<and>
   export papa_unparse scenario
     [JObj [(''id'', JStr ''101''), (''meta'', JObj [(''scores'', JObj [(''primary'', JNum 95)])])]] =
     Inr (''ID,Score'' @ [CHR 0x0D, CHR 0x0A] @ ''101,95'') \<and>
   first_line (unparse_nl (opts_unparse scenario)) (''ID,Score'' @ [CHR 0x0D, CHR 0x0A] @ ''101,95'') = ''ID,Score''"
proof -
  let ?R = "[JObj [(''id'', JStr ''101''), (''meta'', JObj [(''scores'', JObj [(''primary'', JNum 95)])])]]"
  have j: "join_with [unparse_delim (opts_unparse scenario)] (map fst (schema scenario)) = ''ID,Score''"
    by code_simp
  have u: "unparse_line (opts_unparse scenario) (hdrRow (schema scenario)) = ''ID,Score''"
    by code_simp
  have x0: "export papa_unparse scenario [] = Inr ''ID,Score''"
    by code_simp
  have x1: "export papa_unparse scenario ?R = Inr (''ID,Score'' @ [CHR 0x0D, CHR 0x0A] @ ''101,95'')"
    by code_simp
  have q: "\<forall>ent \<in> set (schema scenario). \<not> needs_quotes (unparse_delim (opts_unparse scenario)) (fst ent)"
    by code_simp
  have n: "unparse_nl (opts_unparse scenario) \<noteq> []"
    by code_simp
  have h: "hd (unparse_nl (opts_unparse scenario)) \<notin>
             set (join_with [unparse_delim (opts_unparse scenario)] (map fst (schema scenario)))"
    by code_simp
  from export_header_first [of scenario "[]"] x0 q n h
  have "first_line (unparse_nl (opts_unparse scenario)) ''ID,Score'' = ''ID,Score''"
    unfolding j u by blast
  moreover from export_header_first [of scenario ?R] x1 q n h
  have "first_line (unparse_nl (opts_unparse scenario)) (''ID,Score'' @ [CHR 0x0D, CHR 0x0A] @ ''101,95'') = ''ID,Score''"
    unfolding j u by blast
  ultimately show ?thesis using x0 x1 by blast
qed

text \<open>
  C4 as stated fails for a header that holds the delimiter: the writer puts it between
  quotes, and the first line is not the headers joined.
\<close>

theorem export_header_first_counterexample:
  "export papa_unparse quoted_header [] = Inr ([CHR 0x22] @ ''a,b'' @ [CHR 0x22] @ '',c'') \<and>
   first_line (unparse_nl (opts_unparse quoted_header)) ([CHR 0x22] @ ''a,b'' @ [CHR 0x22] @ '',c'') \<noteq> ''a,b,c''"
  by code_simp

section \<open>Empty cells\<close>

lemma keeps_hooks_config:
  assumes "keeps_hooks po"
  shows "header (import_config po)" "skipEmptyLines (import_config po)"
    "transformHeader (import_config po) = trim" "transform (import_config po) = cell_transform"
  using assms by (auto simp: keeps_hooks_def import_config_def split: option.splits)

lemma trim_blank:
  assumes "list_all is_space s"
  shows "trim s = []"
proof -
  from assms have "dropWhile is_space s = []"
    by (induction s) auto
  then show ?thesis by (simp only: trim_def rev.simps dropWhile.simps)
qed

lemma from_entries_zip: "distinct hs \<Longrightarrow> from_entries (zip hs vs) = zip hs vs"
  by (rule from_entries_distinct) (simp add: map_fst_zip_take)

lemma obj_get_zip_nth:
  "distinct hs \<Longrightarrow> j < length hs \<Longrightarrow> j < length vs \<Longrightarrow> obj_get (zip hs vs) (hs ! j) = vs ! j"
proof (induction hs arbitrary: vs j)
  case Nil
  then show ?case by simp
next
  case (Cons h hs)
  then obtain v vs' where vs: "vs = v # vs'" by (cases vs) auto
  show ?case
  proof (cases j)
    case 0
    then show ?thesis by (simp add: vs obj_get_def)
  next
    case (Suc j')
    with Cons.prems vs have "hs ! j' \<noteq> h" by auto
    moreover from Cons.IH [of j' vs'] Cons.prems vs Suc
    have "obj_get (zip hs vs') (hs ! j') = vs' ! j'" by simp
    ultimately show ?thesis by (simp add: vs Suc obj_get_def)
  qed
qed

lemma field_count_ok:
  "concat (map (field_count_errors n) (enumerate k ds)) = [] \<longleftrightarrow> (\<forall>r \<in> set ds. length r = n)"
  by (induction ds arbitrary: k) (auto simp: field_count_errors_def)

lemma tokenize_header_mode:
  assumes "keeps_hooks (opts_parse sz)"
    and "filter (\<lambda>r. r \<noteq> [[]]) (lex_rows (lexer (import_config (opts_parse sz)) csvStr)) = hdr # ds"
  shows "data (tokenize lexer (import_config (opts_parse sz)) csvStr) =
           map (\<lambda>r. from_entries (zip (map trim hdr) (map cell_transform r))) ds"
    and "errors (tokenize lexer (import_config (opts_parse sz)) csvStr) =
           lex_errors (lexer (import_config (opts_parse sz)) csvStr) @
           concat (map (field_count_errors (length hdr)) (enumerate 0 ds))"
  using assms(2) keeps_hooks_config [OF assms(1)]
  by (simp_all add: tokenize_def Let_def)

text \<open>
  C5, as amended. Take an optional column (its codec takes "no value" to "no value" in
  both directions) of a schema with unique headers, where \<open>opts.parse\<close> replaces none of
  the tokenizer settings of \<open>import\<close>, the header names of the text are distinct once
  trimmed, and no later column has a key-path that is equal to, a prefix of or an
  extension of the column's key-path. When \<open>import\<close> succeeds, a cell under the column's
  header whose raw text is empty or white space only reads as "no value" at the column's
  key-path. On export, an absent or \<open>undefined\<close> leaf at the key-path is written as an
  empty cell.
\<close>

theorem import_empty_cell:
  assumes "keeps_hooks (opts_parse sz)"
    and "filter (\<lambda>r. r \<noteq> [[]]) (lex_rows (lexer (import_config (opts_parse sz)) csvStr)) = hdr # ds"
    and "errors (tokenize lexer (import_config (opts_parse sz)) csvStr) = []"
    and "zod_decode (validation_shape (schema sz))
           (data (tokenize lexer (import_config (opts_parse sz)) csvStr)) = Inr rows"
    and "schema sz = pre @ (h, kp, zt) # post"
    and "distinct (map fst (schema sz))"
    and "decode zt Undefined = Inr Undefined"
    and "encode zt Undefined = Inr Undefined"
    and "i < length ds"
    and "j < length hdr"
    and "trim (hdr ! j) = h"
    and "distinct (map trim hdr)"
    and "list_all is_space (ds ! i ! j)"
    and "\<forall>ent \<in> set post. independent (fst (snd ent)) kp"
  shows "(\<exists>objs. import (tokenize lexer) sz csvStr = Inr objs \<and> i < length objs \<and>
                 dlv (objs ! i) kp = Undefined) \<and>
         (\<forall>e. dlv e kp = Undefined \<longrightarrow> export_cell e (h, kp, zt) = Inr (JStr []))"
proof (intro conjI allI impI)
  let ?cfg = "import_config (opts_parse sz)"
  let ?raws = "data (tokenize lexer ?cfg csvStr)"
  let ?shape = "validation_shape (schema sz)"
  have raws: "?raws = map (\<lambda>r. from_entries (zip (map trim hdr) (map cell_transform r))) ds"
    using assms(1,2) by (rule tokenize_header_mode(1))
  have errs: "errors (tokenize lexer ?cfg csvStr) =
                lex_errors (lexer ?cfg csvStr) @ concat (map (field_count_errors (length hdr)) (enumerate 0 ds))"
    using assms(1,2) by (rule tokenize_header_mode(2))
  with assms(3) have "concat (map (field_count_errors (length hdr)) (enumerate 0 ds)) = []"
    by simp
  then have "\<forall>r \<in> set ds. length r = length hdr"
    by (simp only: field_count_ok)
  with assms(9) have lenr: "length (ds ! i) = length hdr" by simp
  have i: "i < length ?raws"
    using assms(9) by (simp add: raws)
  have "?raws ! i = zip (map trim hdr) (map cell_transform (ds ! i))"
    using assms(9,12) by (simp add: raws from_entries_zip)
  moreover have "obj_get (zip (map trim hdr) (map cell_transform (ds ! i))) (map trim hdr ! j) =
                   map cell_transform (ds ! i) ! j"
    using assms(12,10) lenr by (intro obj_get_zip_nth) simp_all
  ultimately have "obj_get (?raws ! i) h = cell_transform (ds ! i ! j)"
    using assms(10,11) lenr by simp
  also have "\<dots> = Undefined"
    using trim_blank [OF assms(13)] by (simp add: cell_transform_def)
  finally have cell: "obj_get (?raws ! i) h = Undefined" .
  have imp: "import (tokenize lexer) sz csvStr = Inr (map (\<lambda>row. JObj (row_to_obj (schema sz) row)) rows)"
    using assms(3,4) by (rule import_rows)
  have len: "length rows = length ?raws"
    using assms(4) by (rule zod_decode_Inr(1))
  have l: "lefts (map (decode_cell i (?raws ! i)) ?shape) = []"
    using assms(4) i by (rule zod_decode_Inr(2))
  have r: "rows ! i = rights (map (decode_cell i (?raws ! i)) ?shape)"
    using assms(4) i by (rule zod_decode_Inr(3))
  have ds: "distinct (map fst ?shape)"
    by (simp add: validation_shape_def distinct_from_entries)
  have "?shape = map (\<lambda>(h, kp, zt). (h, zt)) (schema sz)"
    using assms(6) by (rule validation_shape_distinct)
  then have "(h, zt) \<in> set ?shape"
    by (simp add: assms(5))
  from decoded_value [OF l ds this] have "decode zt (obj_get (?raws ! i) h) = Inr (obj_get (rows ! i) h)"
    by (simp add: r)
  then have v: "obj_get (rows ! i) h = Undefined"
    by (simp add: assms(7) cell)
  have "dlv (JObj (row_to_obj (schema sz) (rows ! i))) kp = obj_get (rows ! i) h"
    unfolding assms(5) using assms(14) by (rule row_to_obj_read)
  with v imp len i
  show "\<exists>objs. import (tokenize lexer) sz csvStr = Inr objs \<and> i < length objs \<and> dlv (objs ! i) kp = Undefined"
    by simp
next
  fix e
  assume "dlv e kp = Undefined"
  then show "export_cell e (h, kp, zt) = Inr (JStr [])"
    by (simp add: export_cell_eq coalesce_def assms(8))
qed

theorem import_empty_cell_witness:
  "list_all is_space ''  '' \<and>
   (\<exists>objs. import papa_parse scenario ''ID,Score\<newline>101,95\<newline>102,  '' = Inr objs \<and>
      1 < length objs \<and> dlv (objs ! 1) ''meta.scores.primary'' = Undefined) \<and>
   import papa_parse scenario ''ID,Score\<newline>101,95\<newline>102,  '' =
     Inr [JObj [(''id'', JStr ''101''), (''meta'', JObj [(''scores'', JObj [(''primary'', JNum 95)])])],
          JObj [(''id'', JStr ''102''), (''meta'', JObj [(''scores'', JObj [(''primary'', Undefined)])])]] \<and>
   export_cell (JObj [(''id'', JStr ''102''), (''meta'', JObj [(''scores'', JObj [(''primary'', Undefined)])])])
     (''Score'', ''meta.scores.primary'', z_optional z_score) = Inr (JStr [])"
proof -
  let ?csv = "''ID,Score\<newline>101,95\<newline>102,  ''"
  let ?rec = "JObj [(''id'', JStr ''102''), (''meta'', JObj [(''scores'', JObj [(''primary'', Undefined)])])]"
  have k: "keeps_hooks (opts_parse scenario)"
    by code_simp
  have lx: "filter (\<lambda>r. r \<noteq> [[]]) (lex_rows (papa_lex (import_config (opts_parse scenario)) ?csv)) =
              [''ID'', ''Score''] # [[''101'', ''95''], [''102'', ''  '']]"
    by code_simp
  have e: "errors (tokenize papa_lex (import_config (opts_parse scenario)) ?csv) = []"
    by code_simp
  have d: "zod_decode (validation_shape (schema scenario))
             (data (tokenize papa_lex (import_config (opts_parse scenario)) ?csv)) =
             Inr [[(''ID'', JStr ''101''), (''Score'', JNum 95)], [(''ID'', JStr ''102''), (''Score'', Undefined)]]"
    by code_simp
  have s: "schema scenario = [(''ID'', ''id'', z_string)] @ (''Score'', ''meta.scores.primary'', z_optional z_score) # []"
    by (simp add: scenario_def)
  have dh: "distinct (map fst (schema scenario))"
    by (simp add: scenario_def)
  have o1: "decode (z_optional z_score) Undefined = Inr Undefined"
    by code_simp
  have o2: "encode (z_optional z_score) Undefined = Inr Undefined"
    by code_simp
  have i: "1 < length [[''101'', ''95''], [''102'', ''  '']]"
    by simp
  have j: "1 < length [''ID'', ''Score'']"
    by simp
  have t: "trim ([''ID'', ''Score''] ! 1) = ''Score''"
    by code_simp
  have dt: "distinct (map trim [''ID'', ''Score''])"
    by code_simp
  have b: "list_all is_space ([[''101'', ''95''], [''102'', ''  '']] ! 1 ! 1)"
    by code_simp
  have b': "list_all is_space ''  ''"
    by code_simp
  have v: "import papa_parse scenario ?csv =
     Inr [JObj [(''id'', JStr ''101''), (''meta'', JObj [(''scores'', JObj [(''primary'', JNum 95)])])],
          JObj [(''id'', JStr ''102''), (''meta'', JObj [(''scores'', JObj [(''primary'', Undefined)])])]]"
    by code_simp
  have n: "dlv ?rec ''meta.scores.primary'' = Undefined"
    by code_simp
  note w = import_empty_cell [where lexer = papa_lex and sz = scenario and csvStr = ?csv
               and pre = "[(''ID'', ''id'', z_string)]" and post = "[]",
               OF k lx e d s dh o1 o2 i j t dt b]
  from w n b' v show ?thesis unfolding papa_parse_def by simp
qed

text \<open>
  C5 as stated fails in three ways: a later column that writes below the optional
  column's key-path leaves a container there; a caller who replaces the cell hook gets the
  empty string; and on export a \<open>null\<close> leaf is handed to the optional codec, which
  rejects it.
\<close>

theorem import_empty_cell_counterexample:
  "decode (z_optional z_string) Undefined = Inr Undefined \<and>
   import papa_parse optional_then_child ''A,B\<newline>,v'' = Inr [JObj [(''x'', JObj [(''y'', JStr ''v'')])]] \<and>
   dlv (JObj [(''x'', JObj [(''y'', JStr ''v'')])]) ''x'' \<noteq> Undefined \<and>
   import papa_parse keep_raw ''ID,Name\<newline>1,'' = Inr [JObj [(''id'', JStr ''1''), (''name'', JStr [])]] \<and>
   dlv (JObj [(''id'', JStr ''1''), (''name'', JStr [])]) ''name'' \<noteq> Undefined \<and>
   export_cell (JObj [(''id'', JStr ''1''), (''name'', Null)]) (''Name'', ''name'', z_optional z_string) =
     Inl ''invalid_type''"
  by code_simp

section \<open>Round trip\<close>

lemma independent_later:
  "independent_paths kps \<Longrightarrow> j < length kps \<Longrightarrow> \<forall>kp' \<in> set (drop (Suc j) kps). independent kp' (kps ! j)"
proof (induction kps arbitrary: j)
  case Nil
  then show ?case by simp
next
  case (Cons kp kps)
  then show ?case by (cases j) auto
qed

lemma map_throwing_nth:
  "map_throwing f xs = Inr ys \<Longrightarrow> length ys = length xs \<and> (\<forall>i < length xs. f (xs ! i) = Inr (ys ! i))"
proof (induction xs arbitrary: ys)
  case Nil
  then show ?case by simp
next
  case (Cons x xs)
  then obtain y ys' where y: "f x = Inr y" "map_throwing f xs = Inr ys'" "ys = y # ys'"
    by (auto split: sum.splits)
  with Cons.IH [of ys'] show ?case by (auto simp: nth_Cons split: nat.splits)
qed

lemma lefts_Nil_iff: "lefts xs = [] \<longleftrightarrow> (\<forall>x \<in> set xs. \<not> isl x)"
  by (induction xs rule: lefts.induct) auto

lemma zod_decode_succeeds:
  assumes "\<forall>i < length raws. \<forall>hc \<in> set shape. \<exists>v. decode (snd hc) (obj_get (raws ! i) (fst hc)) = Inr v"
  shows "\<exists>rows. zod_decode shape raws = Inr rows"
proof -
  have "lefts (map (decode_cell i (raws ! i)) shape) = []" if "i < length raws" for i
    using assms that by (fastforce simp: lefts_Nil_iff decode_cell_def)
  then have "concat (map lefts (decode_rows shape raws)) = []"
    by (simp add: decode_rows_nth)
  then show ?thesis by (simp add: zod_decode_def Let_def)
qed

lemma obj_get_zip:
  assumes "distinct hs" "length hs = length vs" "j < length hs"
  shows "obj_get (zip hs vs) (hs ! j) = vs ! j"
  using assms by (simp add: obj_get_def map_of_zip_nth)

lemma export_cell_proj:
  "export_cell e ent =
     (case encode (snd (snd ent)) (dlv e (fst (snd ent))) of
        Inl x \<Rightarrow> Inl x
      | Inr v \<Rightarrow> Inr (coalesce v (JStr [])))"
  by (cases ent) (simp add: export_cell_eq)

lemma row_to_obj_read_nth:
  assumes "independent_paths (map (\<lambda>ent. fst (snd ent)) sch)" "j < length sch"
  shows "dlv (JObj (row_to_obj sch row)) (fst (snd (sch ! j))) = obj_get row (fst (sch ! j))"
proof -
  let ?kps = "map (\<lambda>ent. fst (snd ent)) sch"
  from assms have "\<forall>kp' \<in> set (drop (Suc j) ?kps). independent kp' (?kps ! j)"
    by (intro independent_later) simp_all
  with assms(2) have post: "\<forall>ent \<in> set (drop (Suc j) sch). independent (fst (snd ent)) (fst (snd (sch ! j)))"
    by (simp add: drop_map)
  have "sch = take j sch @ (fst (sch ! j), fst (snd (sch ! j)), snd (snd (sch ! j))) # drop (Suc j) sch"
    using assms(2) by (simp add: id_take_nth_drop [symmetric])
  with row_to_obj_read [OF post, of "take j sch" "fst (sch ! j)" "snd (snd (sch ! j))" row]
  show ?thesis by simp
qed

lemma roundtrip_core:
  assumes dh: "distinct (map fst (schema sz))"
    and ip: "independent_paths (map (\<lambda>ent. fst (snd ent)) (schema sz))"
    and ex: "map_throwing (\<lambda>e. map_throwing (export_cell e) (schema sz)) R = Inr rows"
    and tok_e: "errors (parse (import_config (opts_parse sz))
                   (unparse (opts_unparse sz) (hdrRow (schema sz) # rows))) = []"
    and tok_d: "data (parse (import_config (opts_parse sz))
                   (unparse (opts_unparse sz) (hdrRow (schema sz) # rows))) =
                map (\<lambda>r. zip (map fst (schema sz))
                              (map (\<lambda>c. transform (import_config (opts_parse sz)) (cell_text c)) r)) rows"
    and codec: "\<forall>e \<in> set R. \<forall>ent \<in> set (schema sz). \<exists>out.
                  encode (snd (snd ent)) (dlv e (fst (snd ent))) = Inr out \<and>
                  decode (snd (snd ent))
                    (transform (import_config (opts_parse sz)) (cell_text (coalesce out (JStr [])))) =
                  Inr (dlv e (fst (snd ent)))"
  shows "\<exists>csv objs. export unparse sz R = Inr csv \<and> import parse sz csv = Inr objs \<and>
           length objs = length R \<and>
           (\<forall>i < length R. \<forall>ent \<in> set (schema sz).
              dlv (objs ! i) (fst (snd ent)) = dlv (R ! i) (fst (snd ent))) \<and>
           objs = map (\<lambda>e. JObj (row_to_obj (schema sz)
                                   (map (\<lambda>ent. (fst ent, dlv e (fst (snd ent)))) (schema sz)))) R"
proof -
  let ?cfg = "import_config (opts_parse sz)"
  let ?sch = "schema sz"
  let ?f = "\<lambda>c. transform ?cfg (cell_text c)"
  let ?csv = "unparse (opts_unparse sz) (hdrRow ?sch # rows)"
  let ?raws = "data (parse ?cfg ?csv)"
  let ?shape = "validation_shape ?sch"
  have exp: "export unparse sz R = Inr ?csv"
    by (simp add: export_def ex)
  from map_throwing_nth [OF ex] have lenr: "length rows = length R"
    and rowi: "\<And>i. i < length R \<Longrightarrow> map_throwing (export_cell (R ! i)) ?sch = Inr (rows ! i)"
    by auto
  have lenc: "length (rows ! i) = length ?sch" if "i < length R" for i
    using map_throwing_nth [OF rowi [OF that]] by simp
  have celli: "export_cell (R ! i) (?sch ! j) = Inr (rows ! i ! j)"
    if "i < length R" "j < length ?sch" for i j
    using map_throwing_nth [OF rowi [OF that(1)]] that(2) by simp
  have cellv: "decode (snd (snd (?sch ! j))) (?f (rows ! i ! j)) = Inr (dlv (R ! i) (fst (snd (?sch ! j))))"
    if "i < length R" "j < length ?sch" for i j
  proof -
    from that have "R ! i \<in> set R" "?sch ! j \<in> set ?sch" by simp_all
    with codec obtain out where
      o: "encode (snd (snd (?sch ! j))) (dlv (R ! i) (fst (snd (?sch ! j)))) = Inr out"
         "decode (snd (snd (?sch ! j))) (?f (coalesce out (JStr []))) = Inr (dlv (R ! i) (fst (snd (?sch ! j))))"
      by blast
    from o(1) have "export_cell (R ! i) (?sch ! j) = Inr (coalesce out (JStr []))"
      by (simp add: export_cell_proj)
    with celli [OF that] have "rows ! i ! j = coalesce out (JStr [])" by simp
    with o(2) show ?thesis by simp
  qed
  have lenraw: "length ?raws = length R"
    by (simp add: tok_d lenr)
  have rawget: "obj_get (?raws ! i) (fst (?sch ! j)) = ?f (rows ! i ! j)"
    if "i < length R" "j < length ?sch" for i j
  proof -
    from that(1) have "?raws ! i = zip (map fst ?sch) (map ?f (rows ! i))"
      by (simp add: tok_d lenr)
    moreover have "obj_get (zip (map fst ?sch) (map ?f (rows ! i))) (map fst ?sch ! j) = map ?f (rows ! i) ! j"
      using dh lenc [OF that(1)] that(2) by (intro obj_get_zip) simp_all
    ultimately show ?thesis using that lenc [OF that(1)] by simp
  qed
  have shape: "?shape = map (\<lambda>(h, kp, zt). (h, zt)) ?sch"
    using dh by (rule validation_shape_distinct)
  have mem: "(fst (?sch ! j), snd (snd (?sch ! j))) \<in> set ?shape" if "j < length ?sch" for j
  proof -
    from that have "?sch ! j \<in> set ?sch" by simp
    then have "(\<lambda>(h, kp, zt). (h, zt)) (?sch ! j) \<in> set ?shape"
      unfolding shape by simp
    then show ?thesis by (simp add: case_prod_beta)
  qed
  have "\<exists>v. decode (snd hc) (obj_get (?raws ! i) (fst hc)) = Inr v"
    if "i < length ?raws" "hc \<in> set ?shape" for i hc
  proof -
    from that(2) obtain j where j: "j < length ?sch" "hc = (fst (?sch ! j), snd (snd (?sch ! j)))"
      unfolding shape by (auto simp: in_set_conv_nth case_prod_beta)
    from that(1) lenraw have i: "i < length R" by simp
    from cellv [OF i j(1)] rawget [OF i j(1)] show ?thesis by (simp add: j(2))
  qed
  then have "\<forall>i < length ?raws. \<forall>hc \<in> set ?shape. \<exists>v. decode (snd hc) (obj_get (?raws ! i) (fst hc)) = Inr v"
    by blast
  from zod_decode_succeeds [OF this] obtain decoded where dec: "zod_decode ?shape ?raws = Inr decoded"
    by blast
  have imp: "import parse sz ?csv = Inr (map (\<lambda>row. JObj (row_to_obj ?sch row)) decoded)"
    using tok_e dec by (rule import_rows)
  have lend: "length decoded = length R"
    using zod_decode_Inr(1) [OF dec] lenraw by simp
  have ds: "distinct (map fst ?shape)"
    by (simp add: validation_shape_def distinct_from_entries)
  have val: "obj_get (decoded ! i) (fst (?sch ! j)) = dlv (R ! i) (fst (snd (?sch ! j)))"
    if "i < length R" "j < length ?sch" for i j
  proof -
    from that(1) lenraw have i: "i < length ?raws" by simp
    have "decode (snd (snd (?sch ! j))) (obj_get (?raws ! i) (fst (?sch ! j))) =
            Inr (obj_get (rights (map (decode_cell i (?raws ! i)) ?shape)) (fst (?sch ! j)))"
      using zod_decode_Inr(2) [OF dec i] ds mem [OF that(2)] by (rule decoded_value)
    then show ?thesis
      using cellv [OF that] rawget [OF that] zod_decode_Inr(3) [OF dec i] by simp
  qed
  have reads: "dlv (map (\<lambda>row. JObj (row_to_obj ?sch row)) decoded ! i) (fst (snd ent)) = dlv (R ! i) (fst (snd ent))"
    if "i < length R" "ent \<in> set ?sch" for i ent
  proof -
    from that(2) obtain j where j: "j < length ?sch" "ent = ?sch ! j"
      by (auto simp: in_set_conv_nth)
    from row_to_obj_read_nth [OF ip j(1), of "decoded ! i"] val [OF that(1) j(1)] that(1) lend
    show ?thesis by (simp add: j(2))
  qed
  have row: "decoded ! i = map (\<lambda>ent. (fst ent, dlv (R ! i) (fst (snd ent)))) ?sch"
    if "i < length R" for i
  proof -
    from that lenraw have i: "i < length ?raws" by simp
    let ?xs = "map (decode_cell i (?raws ! i)) ?shape"
    have "decode_cell i (?raws ! i) ((\<lambda>(h, kp, zt). (h, zt)) ent) = Inr (fst ent, dlv (R ! i) (fst (snd ent)))"
      if "ent \<in> set ?sch" for ent
    proof -
      from that obtain j where j: "j < length ?sch" "ent = ?sch ! j"
        by (auto simp: in_set_conv_nth)
      from cellv [OF \<open>i < length R\<close> j(1)] rawget [OF \<open>i < length R\<close> j(1)]
      have "decode (snd (snd ent)) (obj_get (?raws ! i) (fst ent)) = Inr (dlv (R ! i) (fst (snd ent)))"
        by (simp add: j(2))
      then have "decode_cell i (?raws ! i) (fst ent, snd (snd ent)) = Inr (fst ent, dlv (R ! i) (fst (snd ent)))"
        by (rule decode_cell_Inr)
      then show ?thesis by (simp add: case_prod_beta)
    qed
    then have xs: "?xs = map Inr (map (\<lambda>ent. (fst ent, dlv (R ! i) (fst (snd ent)))) ?sch)"
      unfolding shape by simp
    have "map Inr (rights ?xs) = ?xs"
      using zod_decode_Inr(2) [OF dec i] by (rule lefts_Nil_rights)
    also note xs
    finally have "rights ?xs = map (\<lambda>ent. (fst ent, dlv (R ! i) (fst (snd ent)))) ?sch"
      by (simp only: inj_map_eq_map [OF inj_Inr])
    with zod_decode_Inr(3) [OF dec i] show ?thesis by simp
  qed
  have "map (\<lambda>row. JObj (row_to_obj ?sch row)) decoded =
          map (\<lambda>e. JObj (row_to_obj ?sch (map (\<lambda>ent. (fst ent, dlv e (fst (snd ent)))) ?sch))) R"
    using lend row by (intro nth_equalityI) simp_all
  with exp imp lend reads show ?thesis by auto
qed

text \<open>
  C1, as amended. Take a schema with unique headers that trimming leaves unchanged and with
  pairwise independent key-paths, where \<open>opts.parse\<close> replaces none of the tokenizer
  settings of \<open>import\<close>, and records whose cells \<open>export\<close> hands to the writer as \<open>rows\<close>.
  Suppose the lexer reads the written text back without error as the header line and those
  rows, cell text by cell text, that no written line is a single empty cell, and that every
  codec decodes its own encode output, trimmed and with the empty string turned into "no
  value", back to the value it encoded. Then \<open>import\<close> of \<open>export\<close> returns as many
  records as were exported, reading any column's key-path from a returned record yields the
  value read from the exported one, and each returned record is the object that \<open>import\<close>
  builds from those values.
\<close>

theorem import_export_roundtrip:
  assumes dh: "distinct (map fst (schema sz))"
    and tr: "\<forall>ent \<in> set (schema sz). trim (fst ent) = fst ent"
    and ip: "independent_paths (map (\<lambda>ent. fst (snd ent)) (schema sz))"
    and keeps: "keeps_hooks (opts_parse sz)"
    and ex: "map_throwing (\<lambda>e. map_throwing (export_cell e) (schema sz)) R = Inr rows"
    and lex_r: "lex_rows (lexer (import_config (opts_parse sz))
                   (unparse (opts_unparse sz) (hdrRow (schema sz) # rows))) =
                map (map cell_text) (hdrRow (schema sz) # rows)"
    and lex_e: "lex_errors (lexer (import_config (opts_parse sz))
                   (unparse (opts_unparse sz) (hdrRow (schema sz) # rows))) = []"
    and nb: "\<forall>r \<in> set (hdrRow (schema sz) # rows). map cell_text r \<noteq> [[]]"
    and codec: "\<forall>e \<in> set R. \<forall>ent \<in> set (schema sz). \<exists>out.
                  encode (snd (snd ent)) (dlv e (fst (snd ent))) = Inr out \<and>
                  decode (snd (snd ent)) (cell_transform (cell_text (coalesce out (JStr [])))) =
                  Inr (dlv e (fst (snd ent)))"
  shows "\<exists>csv objs. export unparse sz R = Inr csv \<and> import (tokenize lexer) sz csv = Inr objs \<and>
           length objs = length R \<and>
           (\<forall>i < length R. \<forall>ent \<in> set (schema sz).
              dlv (objs ! i) (fst (snd ent)) = dlv (R ! i) (fst (snd ent))) \<and>
           objs = map (\<lambda>e. JObj (row_to_obj (schema sz)
                                   (map (\<lambda>ent. (fst ent, dlv e (fst (snd ent)))) (schema sz)))) R"
proof -
  let ?cfg = "import_config (opts_parse sz)"
  let ?sch = "schema sz"
  let ?csv = "unparse (opts_unparse sz) (hdrRow ?sch # rows)"
  have hooks: "transform ?cfg = cell_transform"
    using keeps by (rule keeps_hooks_config(4))
  have hdr: "map cell_text (hdrRow ?sch) = map fst ?sch"
    by (induction "?sch") (auto simp: hdrRow_def)
  have "filter (\<lambda>r. r \<noteq> [[]]) (map (map cell_text) (hdrRow ?sch # rows)) =
          map (map cell_text) (hdrRow ?sch # rows)"
    using nb by (intro filter_True) auto
  then have lx: "filter (\<lambda>r. r \<noteq> [[]]) (lex_rows (lexer ?cfg ?csv)) =
                   map fst ?sch # map (map cell_text) rows"
    by (simp add: lex_r hdr)
  have trimmed: "map trim (map fst ?sch) = map fst ?sch"
    using tr by (induction "?sch") auto
  note td = tokenize_header_mode [where lexer = lexer and sz = sz and csvStr = ?csv, OF keeps lx]
  have tok_d: "data (tokenize lexer ?cfg ?csv) =
                 map (\<lambda>r. zip (map fst ?sch) (map (\<lambda>c. transform ?cfg (cell_text c)) r)) rows"
    unfolding td(1) trimmed hooks
    by (simp add: from_entries_zip [OF dh] comp_def)
  have "\<forall>r \<in> set (map (map cell_text) rows). length r = length (map fst ?sch)"
  proof
    fix r assume "r \<in> set (map (map cell_text) rows)"
    then obtain i where i: "i < length rows" "r = map cell_text (rows ! i)"
      by (auto simp: in_set_conv_nth)
    from map_throwing_nth [OF ex] i(1)
    have "map_throwing (export_cell (R ! i)) ?sch = Inr (rows ! i)" by simp
    from map_throwing_nth [OF this] show "length r = length (map fst ?sch)"
      by (simp add: i(2))
  qed
  then have "concat (map (field_count_errors (length (map fst ?sch))) (enumerate 0 (map (map cell_text) rows))) = []"
    by (simp only: field_count_ok)
  then have tok_e: "errors (tokenize lexer ?cfg ?csv) = []"
    unfolding td(2) by (simp add: lex_e)
  from codec have codec': "\<forall>e \<in> set R. \<forall>ent \<in> set ?sch. \<exists>out.
                  encode (snd (snd ent)) (dlv e (fst (snd ent))) = Inr out \<and>
                  decode (snd (snd ent)) (transform ?cfg (cell_text (coalesce out (JStr [])))) =
                  Inr (dlv e (fst (snd ent)))"
    by (simp only: hooks)
  from roundtrip_core [where parse = "tokenize lexer" and unparse = unparse and sz = sz and R = R
                         and rows = rows, OF dh ip ex tok_e tok_d codec']
  show ?thesis .
qed

theorem import_export_roundtrip_witness:
  "export papa_unparse scenario scenario_records =
     Inr (''ID,Score'' @ [CHR 0x0D, CHR 0x0A] @ ''101,95'' @ [CHR 0x0D, CHR 0x0A] @ ''102,'') \<and>
   import papa_parse scenario
     (''ID,Score'' @ [CHR 0x0D, CHR 0x0A] @ ''101,95'' @ [CHR 0x0D, CHR 0x0A] @ ''102,'') =
     Inr scenario_records \<and>
   (\<exists>csv objs. export papa_unparse scenario scenario_records = Inr csv \<and>
      import papa_parse scenario csv = Inr objs \<and> length objs = length scenario_records \<and>
      dlv (objs ! 0) ''id'' = dlv (scenario_records ! 0) ''id'' \<and>
      dlv (objs ! 1) ''meta.scores.primary'' = dlv (scenario_records ! 1) ''meta.scores.primary'')"
proof -
  let ?rows = "[[JStr ''101'', JStr ''95''], [JStr ''102'', JStr []]]"
  have dh: "distinct (map fst (schema scenario))"
    by (simp add: scenario_def)
  have tr: "\<forall>ent \<in> set (schema scenario). trim (fst ent) = fst ent"
    by code_simp
  have ip: "independent_paths (map (\<lambda>ent. fst (snd ent)) (schema scenario))"
    by code_simp
  have k: "keeps_hooks (opts_parse scenario)"
    by code_simp
  have ex: "map_throwing (\<lambda>e. map_throwing (export_cell e) (schema scenario)) scenario_records = Inr ?rows"
    by code_simp
  have lex_r: "lex_rows (papa_lex (import_config (opts_parse scenario))
                 (papa_unparse (opts_unparse scenario) (hdrRow (schema scenario) # ?rows))) =
               map (map cell_text) (hdrRow (schema scenario) # ?rows)"
    by code_simp
  have lex_e: "lex_errors (papa_lex (import_config (opts_parse scenario))
                 (papa_unparse (opts_unparse scenario) (hdrRow (schema scenario) # ?rows))) = []"
    by code_simp
  have nb: "\<forall>r \<in> set (hdrRow (schema scenario) # ?rows). map cell_text r \<noteq> [[]]"
    by code_simp
  have c: "\<exists>out. encode zt (dlv e kp) = Inr out \<and>
             decode zt (cell_transform (cell_text (coalesce out (JStr [])))) = Inr (dlv e kp)"
    if "e \<in> set scenario_records" "(h, kp, zt) \<in> set (schema scenario)" for e h kp zt
  proof -
    have "encode z_string (dlv (scenario_records ! 0) ''id'') = Inr (JStr ''101'') \<and>
          decode z_string (cell_transform (cell_text (coalesce (JStr ''101'') (JStr [])))) =
            Inr (dlv (scenario_records ! 0) ''id'')"
      by code_simp
    moreover have "encode z_string (dlv (scenario_records ! 1) ''id'') = Inr (JStr ''102'') \<and>
          decode z_string (cell_transform (cell_text (coalesce (JStr ''102'') (JStr [])))) =
            Inr (dlv (scenario_records ! 1) ''id'')"
      by code_simp
    moreover have "encode (z_optional z_score) (dlv (scenario_records ! 0) ''meta.scores.primary'') = Inr (JStr ''95'') \<and>
          decode (z_optional z_score) (cell_transform (cell_text (coalesce (JStr ''95'') (JStr [])))) =
            Inr (dlv (scenario_records ! 0) ''meta.scores.primary'')"
      by code_simp
    moreover have "encode (z_optional z_score) (dlv (scenario_records ! 1) ''meta.scores.primary'') = Inr Undefined \<and>
          decode (z_optional z_score) (cell_transform (cell_text (coalesce Undefined (JStr [])))) =
            Inr (dlv (scenario_records ! 1) ''meta.scores.primary'')"
      by code_simp
    moreover from that have "(e = scenario_records ! 0 \<or> e = scenario_records ! 1) \<and>
        ((kp = ''id'' \<and> zt = z_string) \<or> (kp = ''meta.scores.primary'' \<and> zt = z_optional z_score))"
      by (auto simp: scenario_records_def scenario_def)
    ultimately show ?thesis by blast
  qed
  have codec: "\<forall>e \<in> set scenario_records. \<forall>ent \<in> set (schema scenario). \<exists>out.
                  encode (snd (snd ent)) (dlv e (fst (snd ent))) = Inr out \<and>
                  decode (snd (snd ent)) (cell_transform (cell_text (coalesce out (JStr [])))) =
                  Inr (dlv e (fst (snd ent)))"
    using c by auto
  have x: "export papa_unparse scenario scenario_records =
     Inr (''ID,Score'' @ [CHR 0x0D, CHR 0x0A] @ ''101,95'' @ [CHR 0x0D, CHR 0x0A] @ ''102,'')"
    by code_simp
  have m: "import papa_parse scenario
     (''ID,Score'' @ [CHR 0x0D, CHR 0x0A] @ ''101,95'' @ [CHR 0x0D, CHR 0x0A] @ ''102,'') = Inr scenario_records"
    by code_simp
  have s1: "(''ID'', ''id'', z_string) \<in> set (schema scenario)"
    and s2: "(''Score'', ''meta.scores.primary'', z_optional z_score) \<in> set (schema scenario)"
    by (simp_all add: scenario_def)
  have l: "0 < length scenario_records" "1 < length scenario_records"
    by (simp_all add: scenario_records_def)
  from import_export_roundtrip
         [where lexer = papa_lex and unparse = papa_unparse and sz = scenario and R = scenario_records
            and rows = ?rows,
          OF dh tr ip k ex lex_r lex_e nb codec]
  obtain csv objs where r: "export papa_unparse scenario scenario_records = Inr csv"
    "import papa_parse scenario csv = Inr objs" "length objs = length scenario_records"
    "\<forall>i < length scenario_records. \<forall>ent \<in> set (schema scenario).
        dlv (objs ! i) (fst (snd ent)) = dlv (scenario_records ! i) (fst (snd ent))"
    unfolding papa_parse_def by blast
  from r(4) l(1) s1 have "dlv (objs ! 0) ''id'' = dlv (scenario_records ! 0) ''id''"
    by fastforce
  moreover from r(4) l(2) s2
  have "dlv (objs ! 1) ''meta.scores.primary'' = dlv (scenario_records ! 1) ''meta.scores.primary''"
    by fastforce
  ultimately show ?thesis using x m r(1,2,3) by blast
qed

text \<open>
  C1 as stated fails for codecs that are the identity on strings, in five ways: an empty
  string is written as an empty cell, which comes back as "no value" and is rejected; a
  header with a leading space comes back trimmed and no longer matches; a record whose
  only cell is empty is written as a blank line and skipped; a caller who replaces the
  cell hook gets the empty string where the record had "no value"; and with key-paths
  \<open>x\<close> and \<open>x.y\<close> the later write replaces the string at \<open>x\<close> by a container.
\<close>

theorem import_export_roundtrip_counterexample:
  "decode z_string (JStr []) = Inr (JStr []) \<and> encode z_string (JStr []) = Inr (JStr []) \<and>
   export papa_unparse two_strings [JObj [(''id'', JStr ''1''), (''name'', JStr [])]] =
     Inr (''ID,Name'' @ [CHR 0x0D, CHR 0x0A] @ ''1,'') \<and>
   import papa_parse two_strings (''ID,Name'' @ [CHR 0x0D, CHR 0x0A] @ ''1,'') =
     Inl (ZodError [Issue 0 ''Name'' ''invalid_type'']) \<and>
   export papa_unparse spaced_header [JObj [(''id'', JStr ''1'')]] =
     Inr ([CHR 0x22] @ '' ID'' @ [CHR 0x22, CHR 0x0D, CHR 0x0A] @ ''1'') \<and>
   import papa_parse spaced_header ([CHR 0x22] @ '' ID'' @ [CHR 0x22, CHR 0x0D, CHR 0x0A] @ ''1'') =
     Inl (ZodError [Issue 0 '' ID'' ''invalid_type'']) \<and>
   export papa_unparse single_optional [JObj []] = Inr (''Note'' @ [CHR 0x0D, CHR 0x0A]) \<and>
   import papa_parse single_optional (''Note'' @ [CHR 0x0D, CHR 0x0A]) = Inr [] \<and>
   export papa_unparse keep_raw [JObj [(''id'', JStr ''1'')]] =
     Inr (''ID,Name'' @ [CHR 0x0D, CHR 0x0A] @ ''1,'') \<and>
   import papa_parse keep_raw (''ID,Name'' @ [CHR 0x0D, CHR 0x0A] @ ''1,'') =
     Inr [JObj [(''id'', JStr ''1''), (''name'', JStr [])]] \<and>
   export papa_unparse optional_overlap [JObj [(''x'', JStr ''1'')]] =
     Inr (''A,B'' @ [CHR 0x0D, CHR 0x0A] @ ''1,'') \<and>
   import papa_parse optional_overlap (''A,B'' @ [CHR 0x0D, CHR 0x0A] @ ''1,'') =
     Inr [JObj [(''x'', JObj [(''y'', Undefined)])]]"
  by code_simp

end
